theory Spec2Isabelle
  imports Main "HOL-Library.Finite_Map" "HOL-Library.List_Lexorder" "HOL-Library.Char_ord"
begin

section \<open>TritonHTTP: request parsing, resource resolution, responses, connections\<close>

text \<open>
  A shallow embedding of the Go package \<open>tritonhttp\<close>: the request parser
  (\<open>readRequest\<close>, \<open>parseRequestLine\<close>), the resolver and the response constructors
  (\<open>handleGoodRequest\<close>, \<open>handleOK\<close>, \<open>handleBadRequest\<close>, \<open>handleNotFound\<close>, \<open>init\<close>),
  the response writer (\<open>Write\<close>) and the per-connection loop (\<open>handleClientConnections\<close>).
  Go strings are byte sequences, here \<open>string\<close>. A Go \<open>map[string]string\<close> is a finite map.
  A run-time panic (index out of range, nil dereference) is the value \<open>Panic\<close>.
\<close>

subsection \<open>Outcomes and errors\<close>

datatype 'a outcome = Panic | Returned 'a

text \<open>
  The Go \<open>error\<close> values that occur: \<open>io.EOF\<close>; a \<open>net.Error\<close> whose \<open>Timeout()\<close> is true;
  any other read error; a write error; the error of \<open>parseRequestLine\<close>, which carries the
  fields it got; and the errors made with \<open>fmt.Errorf\<close> or \<open>errors.New\<close>, which carry their
  message.
\<close>

datatype error =
    EOF
  | Timeout
  | ReadFailure
  | WriteFailure
  | RequestLineError "string list"
  | Errorf string

definition CR :: char where "CR = CHR 0x0D"
definition LF :: char where "LF = CHR 0x0A"
definition CRLF :: string where "CRLF = [CR, LF]"

subsection \<open>The Go library functions the package calls\<close>

text \<open>\<open>strings.SplitN(s, sep, n)\<close> for a one-byte separator and \<open>n \<ge> 0\<close>: at most \<open>n\<close> pieces,
  the last one the unsplit remainder.\<close>

fun SplitN :: "string \<Rightarrow> char \<Rightarrow> nat \<Rightarrow> string list" where
  "SplitN s c 0 = []"
| "SplitN s c (Suc 0) = [s]"
| "SplitN s c (Suc (Suc n)) =
     (case dropWhile (\<lambda>x. x \<noteq> c) s of
        [] \<Rightarrow> [s]
      | _ # rest \<Rightarrow> takeWhile (\<lambda>x. x \<noteq> c) s # SplitN rest c (Suc n))"

text \<open>\<open>strings.Split(s, sep)\<close> is \<open>SplitN\<close> with \<open>n = Count(s, sep) + 1\<close>: it splits at every
  separator.\<close>

definition Split :: "string \<Rightarrow> char \<Rightarrow> string list" where
  "Split s c = SplitN s c (Suc (count_list s c))"

definition Contains :: "string \<Rightarrow> char \<Rightarrow> bool" where
  "Contains s c = (c \<in> set s)"

text \<open>\<open>strings.TrimLeft(s, " ")\<close>.\<close>

definition TrimLeft :: "string \<Rightarrow> char \<Rightarrow> string" where
  "TrimLeft s c = dropWhile (\<lambda>x. x = c) s"

definition HasPrefix :: "string \<Rightarrow> string \<Rightarrow> bool" where
  "HasPrefix s p = (take (length p) s = p)"

text \<open>\<open>strings.Join(elems, sep)\<close> for a one-byte separator.\<close>

fun join_sep :: "char \<Rightarrow> string list \<Rightarrow> string" where
  "join_sep c [] = []"
| "join_sep c [e] = e"
| "join_sep c (e # es) = e @ c # join_sep c es"

text \<open>
  \<open>filepath.Clean\<close> on a Unix path, by its documented rules: empty elements and \<open>.\<close>
  elements are dropped; a \<open>..\<close> element removes the element before it when there is one
  that is not itself \<open>..\<close>, is dropped at the start of a rooted path, and is kept at the
  start of a relative path; the empty result is \<open>.\<close>. \<open>clean_elems\<close> walks the elements
  with the output built so far.
\<close>

fun clean_elems :: "bool \<Rightarrow> string list \<Rightarrow> string list \<Rightarrow> string list" where
  "clean_elems rooted [] out = out"
| "clean_elems rooted (e # es) out =
     (if e = [] \<or> e = ''.'' then clean_elems rooted es out
      else if e = ''..'' then
        (if out \<noteq> [] \<and> last out \<noteq> ''..'' then clean_elems rooted es (butlast out)
         else if \<not> rooted then clean_elems rooted es (out @ [''..''])
         else clean_elems rooted es out)
      else clean_elems rooted es (out @ [e]))"

definition Clean :: "string \<Rightarrow> string" where
  "Clean path =
     (if path = [] then ''.''
      else
        let rooted = (hd path = CHR ''/'');
            out = (if rooted then ''/'' else []) @
                  join_sep (CHR ''/'') (clean_elems rooted (Split path (CHR ''/'')) [])
        in if out = [] then ''.'' else out)"

text \<open>\<open>filepath.Join\<close>: the first non-empty element and all after it, joined with a slash
  and cleaned; the empty string when every element is empty.\<close>

fun Join :: "string list \<Rightarrow> string" where
  "Join [] = []"
| "Join (e # es) = (if e \<noteq> [] then Clean (join_sep (CHR ''/'') (e # es)) else Join es)"

text \<open>
  \<open>filepath.Rel\<close> on Unix paths. \<open>rel_walk\<close> is its loop: it positions both paths at the
  first differing elements and returns \<open>base[b0:]\<close>, \<open>targ[t0:]\<close> and \<open>base[b0:bi]\<close>
  (empty when the loop ended because one path was used up).
\<close>

function rel_walk :: "string \<Rightarrow> string \<Rightarrow> string \<times> string \<times> string" where
  "rel_walk b t =
     (if b = [] \<or> t = [] then (b, t, [])
      else
        let be = takeWhile (\<lambda>x. x \<noteq> CHR ''/'') b;
            te = takeWhile (\<lambda>x. x \<noteq> CHR ''/'') t
        in if te \<noteq> be then (b, t, be)
           else rel_walk (drop (Suc (length be)) b) (drop (Suc (length te)) t))"
  by pat_completeness auto
termination
  by (relation "measure (\<lambda>(b, t). length b)") auto

declare rel_walk.simps [simp del]

definition Rel :: "string \<Rightarrow> string \<Rightarrow> error + string" where
  "Rel basepath targpath =
     (let base = Clean basepath; targ = Clean targpath in
      if targ = base then Inr ''.''
      else
        let base = (if base = ''.'' then [] else base);
            baseSlashed = (base \<noteq> [] \<and> hd base = CHR ''/'');
            targSlashed = (targ \<noteq> [] \<and> hd targ = CHR ''/'')
        in if baseSlashed \<noteq> targSlashed
           then Inl (Errorf (''Rel: can't make '' @ targpath @ '' relative to '' @ basepath))
           else
             (case rel_walk base targ of
                (b, t, el) \<Rightarrow>
                  if el = ''..''
                  then Inl (Errorf (''Rel: can't make '' @ targpath @ '' relative to '' @ basepath))
                  else if b \<noteq> []
                  then Inr (''..'' @ concat (replicate (count_list b (CHR ''/'')) ''/..'') @
                            (if t \<noteq> [] then CHR ''/'' # t else []))
                  else Inr t))"

text \<open>\<open>filepath.Ext\<close>: the suffix from the last dot of the last path element, or empty.\<close>

definition Ext :: "string \<Rightarrow> string" where
  "Ext path =
     (let r = takeWhile (\<lambda>x. x \<noteq> CHR ''/'') (rev path) in
      if CHR ''.'' \<in> set r then CHR ''.'' # rev (takeWhile (\<lambda>x. x \<noteq> CHR ''.'') r) else [])"

text \<open>\<open>fmt.Sprint\<close> of an integer: its decimal digits, with a minus sign when negative.\<close>

definition digit :: "nat \<Rightarrow> char" where
  "digit d = ''0123456789'' ! d"

function show_nat :: "nat \<Rightarrow> string" where
  "show_nat n = (if n < 10 then [digit n] else show_nat (n div 10) @ [digit (n mod 10)])"
  by pat_completeness auto
termination
  by (relation "measure (\<lambda>n. n)") auto

declare show_nat.simps [simp del]

definition Sprint :: "int \<Rightarrow> string" where
  "Sprint i = (if i < 0 then CHR ''-'' # show_nat (nat (- i)) else show_nat (nat i))"

subsection \<open>The buffered line reader\<close>

text \<open>
  A connection delivers finitely many bytes and then a condition that every later read
  meets: the peer has closed (\<open>EOF\<close>), the read deadline has passed (\<open>Timeout\<close>), or the
  read fails otherwise. \<open>bufio.Reader.ReadLine\<close> returns either a line or an error, never
  both: a line ends at the first \<open>\n\<close>, when that lies within the buffer, and loses its
  \<open>\n\<close> or \<open>\r\n\<close>; bytes that fill the buffer without a \<open>\n\<close> are returned as a line of
  their own (a trailing \<open>\r\<close> is left for the next call); bytes that the final condition
  cuts short are returned as a line without an error, and the error comes with the next
  call. \<open>ReadLines\<close> is the sequence of lines that successive calls return before the first
  error.
\<close>

definition defaultBufSize :: nat where "defaultBufSize = 4096"

function ReadLines :: "string \<Rightarrow> string list" where
  "ReadLines bs =
     (if bs = [] then []
      else
        let l = takeWhile (\<lambda>x. x \<noteq> LF) bs in
        if length l < length bs \<and> length l < defaultBufSize then
          (if l \<noteq> [] \<and> last l = CR then butlast l else l) # ReadLines (drop (Suc (length l)) bs)
        else if defaultBufSize \<le> length bs then
          (if bs ! (defaultBufSize - 1) = CR
           then take (defaultBufSize - 1) bs # ReadLines (drop (defaultBufSize - 1) bs)
           else take defaultBufSize bs # ReadLines (drop defaultBufSize bs))
        else [bs])"
  by pat_completeness auto
termination
  by (relation "measure length") (auto simp: defaultBufSize_def)

declare ReadLines.simps [simp del]

text \<open>The state of a \<open>*bufio.Reader\<close>: the lines still to be returned, and the error that
  every call returns after them.\<close>

record Reader =
  queued :: "string list"
  terminal :: error

definition NewReader :: "string \<Rightarrow> error \<Rightarrow> Reader" where
  "NewReader bytes final = \<lparr>queued = ReadLines bytes, terminal = final\<rparr>"

definition readLine :: "Reader \<Rightarrow> (string \<times> error option) \<times> Reader" where
  "readLine br =
     (case queued br of
        [] \<Rightarrow> (([], Some (terminal br)), br)
      | l # ls \<Rightarrow> ((l, None), br\<lparr>queued := ls\<rparr>))"

subsection \<open>The environment\<close>

text \<open>
  What the package reads from outside itself. \<open>Stat\<close> is \<open>os.Stat\<close>: the file information, an
  error for which \<open>errors.Is(err, os.ErrNotExist)\<close> holds, or any other error (permission
  denied, not a directory). \<open>Open\<close> is \<open>os.Open\<close> followed by reading the file with
  \<open>io.Copy\<close>: \<open>None\<close> when the file cannot be opened; the bytes of the file when it is read
  to its end; or, when reading fails (the path is a directory, the disk fails half-way),
  the bytes that \<open>io.Copy\<close> has passed on before the failure. \<open>Now\<close> is the reading of
  \<open>time.Now()\<close>.

  \<open>CanonicalHeaderKey\<close>, \<open>FormatTime\<close> and \<open>MIMETypeByExtension\<close> are functions of the
  package whose source is not part of the files verified here; they are parameters, and
  every theorem below holds for all of them.
\<close>

datatype stat_error = ErrNotExist | ErrOther

datatype opened = ReadAll string | ReadFails string

record FileInfo =
  IsDir :: bool
  Size :: int
  ModTime :: nat

record Env =
  Stat :: "string \<Rightarrow> stat_error + FileInfo"
  Open :: "string \<Rightarrow> opened option"
  Now :: nat
  CanonicalHeaderKey :: "string \<Rightarrow> string"
  FormatTime :: "nat \<Rightarrow> string"
  MIMETypeByExtension :: "string \<Rightarrow> string"

subsection \<open>Requests and the request parser\<close>

record Request =
  Method :: string
  URL :: string
  Proto :: string
  Headers :: "(string, string) fmap"
  Host :: string
  Close :: bool

text \<open>\<open>&Request{}\<close>: every field has its zero value.\<close>

definition zeroRequest :: Request where
  "zeroRequest = \<lparr>Method = [], URL = [], Proto = [], Headers = fmempty, Host = [], Close = False\<rparr>"

definition parseRequestLine :: "string \<Rightarrow> string list \<times> error option" where
  "parseRequestLine line =
     (let fields = SplitN line (CHR '' '') 3 in
      if length fields \<noteq> 3 then ([], Some (RequestLineError fields))
      else (fields, None))"

text \<open>The header loop of \<open>readRequest\<close>: it reads lines until the empty one.\<close>

function readHeaders ::
  "Env \<Rightarrow> Reader \<Rightarrow> (string, string) fmap \<Rightarrow> (error + (string, string) fmap) \<times> Reader" where
  "readHeaders w br hs =
     (case readLine br of
        ((line, Some err), br') \<Rightarrow> (Inl err, br')
      | ((line, None), br') \<Rightarrow>
          if line = [] then (Inr hs, br')
          else if \<not> Contains line (CHR '':'') then (Inl (Errorf ''400: Invalid header''), br')
          else
            let header = Split line (CHR '':'');
                headerKey = CanonicalHeaderKey w (header ! 0);
                headerVal = TrimLeft (header ! 1) (CHR '' '')
            in readHeaders w br' (fmupd headerKey headerVal hs))"
  by pat_completeness auto
termination
  by (relation "measure (\<lambda>(w, br, hs). length (queued br))")
     (auto simp: readLine_def split: list.splits)

declare readHeaders.simps [simp del]

text \<open>
  \<open>readRequest\<close> returns the request, the flag \<open>fRequest\<close> and the error; the model adds
  the reader's new state. \<open>req.URL[0]\<close> panics when the URL is empty.
\<close>

definition readRequest ::
  "Env \<Rightarrow> Reader \<Rightarrow> (Request option \<times> bool \<times> error option \<times> Reader) outcome" where
  "readRequest w br =
     (let req = zeroRequest in
      case readLine br of
        ((line, Some err), br1) \<Rightarrow> Returned (None, True, Some err, br1)
      | ((line, None), br1) \<Rightarrow>
          (case parseRequestLine line of
             (startLine, Some err) \<Rightarrow> Returned (None, False, Some err, br1)
           | (startLine, None) \<Rightarrow>
               let req = req\<lparr>Method := startLine ! 0\<rparr> in
               if Method req \<noteq> ''GET''
               then Returned (None, False, Some (Errorf ''400: Invalid method''), br1)
               else
                 let req = req\<lparr>URL := startLine ! 1\<rparr> in
                 if URL req = [] then Panic
                 else if hd (URL req) \<noteq> CHR ''/''
                 then Returned (None, False, Some (Errorf ''400: Invalid URL''), br1)
                 else
                   let req = req\<lparr>Proto := startLine ! 2\<rparr> in
                   if Proto req \<noteq> ''HTTP/1.1''
                   then Returned (None, False, Some (Errorf ''400: Invalid version''), br1)
                   else
                     (case readHeaders w br1 fmempty of
                        (Inl err, br2) \<Rightarrow> Returned (None, False, Some err, br2)
                      | (Inr hs, br2) \<Rightarrow>
                          let req = req\<lparr>Headers := hs\<rparr> in
                          (case fmlookup (Headers req) ''Host'' of
                             None \<Rightarrow>
                               Returned (None, False, Some (Errorf ''400: Host Needed''), br2)
                           | Some hostVal \<Rightarrow>
                               let req = req\<lparr>Host := hostVal\<rparr>;
                                   req =
                                     (case fmlookup (Headers req) ''Connection'' of
                                        None \<Rightarrow> req
                                      | Some connectionVal \<Rightarrow>
                                          if connectionVal = ''close''
                                          then req\<lparr>Close := True\<rparr>
                                          else req\<lparr>Close := False\<rparr>)
                               in Returned (Some req, False, None, br2)))))"

subsection \<open>Responses and the resolver\<close>

record Response =
  Proto :: string
  StatusCode :: int
  StatusText :: string
  Headers :: "(string, string) fmap"
  Request :: "Request option"
  FilePath :: string

record Server =
  Addr :: string
  VirtualHosts :: "(string, string) fmap"

definition responseProto :: string where "responseProto = ''HTTP/1.1''"
definition statusOK :: int where "statusOK = 200"
definition statusBadRequest :: int where "statusBadRequest = 400"
definition statusNotFound :: int where "statusNotFound = 404"

text \<open>The map \<open>statusText\<close>; a key that is not in a Go map reads as the zero value.\<close>

definition statusText :: "int \<Rightarrow> string" where
  "statusText code =
     (if code = statusOK then ''OK''
      else if code = statusBadRequest then ''Bad Request''
      else if code = statusNotFound then ''Not Found''
      else [])"

text \<open>\<open>&Response{}\<close>.\<close>

definition zeroResponse :: Response where
  "zeroResponse =
     \<lparr>Proto = [], StatusCode = 0, StatusText = [], Headers = fmempty, Request = None,
      FilePath = []\<rparr>"

text \<open>\<open>res.init(req)\<close>; \<open>req\<close> may be nil.\<close>

definition init :: "Env \<Rightarrow> Request option \<Rightarrow> Response \<Rightarrow> Response" where
  "init w req res =
     (let res = res\<lparr>Proto := responseProto\<rparr>;
          res = res\<lparr>Headers := fmempty\<rparr>;
          res = res\<lparr>Headers := fmupd ''Date'' (FormatTime w (Now w)) (Headers res)\<rparr>;
          res = (case req of
                   None \<Rightarrow> res
                 | Some r \<Rightarrow>
                     if Close r
                     then res\<lparr>Headers := fmupd ''Connection'' ''close'' (Headers res)\<rparr>
                     else res)
      in res\<lparr>Request := req\<rparr>)"

text \<open>\<open>handleOK\<close> calls \<open>os.Stat\<close> again and uses its result without looking at the
  error.\<close>

definition handleOK :: "Env \<Rightarrow> Request option \<Rightarrow> Response \<Rightarrow> Response outcome" where
  "handleOK w req res =
     (let res = init w req res;
          res = res\<lparr>StatusCode := statusOK\<rparr>;
          res = res\<lparr>StatusText := statusText (StatusCode res)\<rparr>
      in case Stat w (FilePath res) of
           Inl e \<Rightarrow> Panic
         | Inr fi \<Rightarrow>
             let ext = Ext (FilePath res);
                 res = res\<lparr>Headers := fmupd ''Last-Modified'' (FormatTime w (ModTime fi)) (Headers res)\<rparr>;
                 res = res\<lparr>Headers := fmupd ''Content-Type'' (MIMETypeByExtension w ext) (Headers res)\<rparr>;
                 res = res\<lparr>Headers := fmupd ''Content-Length'' (Sprint (Size fi)) (Headers res)\<rparr>
             in Returned res)"

definition handleBadRequest :: "Env \<Rightarrow> Request option \<Rightarrow> Response \<Rightarrow> Response" where
  "handleBadRequest w req res =
     (let res = init w req res;
          res = res\<lparr>StatusCode := statusBadRequest\<rparr>;
          res = res\<lparr>StatusText := statusText (StatusCode res)\<rparr>;
          res = res\<lparr>Headers := fmupd ''Connection'' ''close'' (Headers res)\<rparr>
      in res\<lparr>FilePath := []\<rparr>)"

definition handleNotFound :: "Env \<Rightarrow> Request option \<Rightarrow> Response \<Rightarrow> Response" where
  "handleNotFound w req res =
     (let res = init w req res;
          res = res\<lparr>StatusCode := statusNotFound\<rparr>;
          res = res\<lparr>StatusText := statusText (StatusCode res)\<rparr>
      in res\<lparr>FilePath := []\<rparr>)"

text \<open>
  \<open>handleGoodRequest\<close>. \<open>req.URL[len(req.URL)-1]\<close> panics when the URL is empty, and
  \<open>fi.IsDir()\<close> panics when \<open>os.Stat\<close> has failed with an error that is not
  \<open>os.ErrNotExist\<close>, since \<open>fi\<close> is nil then. The request is changed in place (its URL
  gets the index document); the response points to the changed request.
\<close>

definition handleGoodRequest :: "Server \<Rightarrow> Env \<Rightarrow> Request \<Rightarrow> Response outcome" where
  "handleGoodRequest s w req =
     (let res = zeroResponse in
      if URL req = [] then Panic
      else
        let req = (if last (URL req) = CHR ''/'' then req\<lparr>URL := URL req @ ''index.html''\<rparr> else req);
            docroot = (case fmlookup (VirtualHosts s) (Host req) of None \<Rightarrow> [] | Some d \<Rightarrow> d);
            path = Join [docroot, URL req]
        in case Rel docroot path of
             Inl err \<Rightarrow> Returned (handleNotFound w (Some req) res)
           | Inr pathRel \<Rightarrow>
               if HasPrefix pathRel ''..'' then Returned (handleNotFound w (Some req) res)
               else
                 (case Stat w path of
                    Inl ErrNotExist \<Rightarrow> Returned (handleNotFound w (Some req) res)
                  | Inl ErrOther \<Rightarrow> Panic
                  | Inr fi \<Rightarrow>
                      if IsDir fi then Returned (handleNotFound w (Some req) res)
                      else handleOK w (Some req) (res\<lparr>FilePath := path\<rparr>)))"

text \<open>
  Names for what \<open>handleGoodRequest\<close> computes on its way: the URL with the index document
  appended, the document root of the request's host (the empty string for an unknown
  host), the joined path, and the path relative to the document root.
\<close>

definition resolved_URL :: "Request \<Rightarrow> string" where
  "resolved_URL req = (if last (URL req) = CHR ''/'' then URL req @ ''index.html'' else URL req)"

definition docroot_of :: "Server \<Rightarrow> Request \<Rightarrow> string" where
  "docroot_of s req = (case fmlookup (VirtualHosts s) (Host req) of None \<Rightarrow> [] | Some d \<Rightarrow> d)"

definition resolved_path :: "Server \<Rightarrow> Request \<Rightarrow> string" where
  "resolved_path s req = Join [docroot_of s req, resolved_URL req]"

definition relative_location :: "Server \<Rightarrow> Request \<Rightarrow> error + string" where
  "relative_location s req = Rel (docroot_of s req) (resolved_path s req)"

text \<open>A relative location lies outside the base directory when it is \<open>..\<close> or goes through
  \<open>..\<close> first.\<close>

definition outside_base :: "string \<Rightarrow> bool" where
  "outside_base rel = (rel = ''..'' \<or> HasPrefix rel ''../'')"

subsection \<open>Connections and the response writer\<close>

text \<open>
  A \<open>net.Conn\<close>, with the \<open>bufio.Reader\<close> that \<open>handleClientConnections\<close> puts on it:
  the reader; the bytes written to the peer so far; how many more bytes the connection
  accepts before a write fails (\<open>None\<close>: every write succeeds); for each coming call of
  \<open>SetReadDeadline\<close>, whether it fails (none when the list is used up); and whether the
  connection has been closed.
\<close>

record Conn =
  reader :: Reader
  sent :: string
  room :: "nat option"
  deadlineErrs :: "bool list"
  closed :: bool

definition conn_Write :: "string \<Rightarrow> Conn \<Rightarrow> error option \<times> Conn" where
  "conn_Write bs conn =
     (case room conn of
        None \<Rightarrow> (None, conn\<lparr>sent := sent conn @ bs\<rparr>)
      | Some n \<Rightarrow>
          if length bs \<le> n
          then (None, conn\<lparr>sent := sent conn @ bs, room := Some (n - length bs)\<rparr>)
          else (Some WriteFailure, conn\<lparr>sent := sent conn @ take n bs, room := Some 0\<rparr>))"

definition conn_Close :: "Conn \<Rightarrow> Conn" where
  "conn_Close conn = conn\<lparr>closed := True\<rparr>"

definition SetReadDeadline :: "Conn \<Rightarrow> error option \<times> Conn" where
  "SetReadDeadline conn =
     (case deadlineErrs conn of
        [] \<Rightarrow> (None, conn)
      | d # ds \<Rightarrow>
          ((if d then Some (Errorf ''use of closed network connection'') else None),
           conn\<lparr>deadlineErrs := ds\<rparr>))"

text \<open>Each of the three parts of \<open>Write\<close> fills a \<open>bufio.Writer\<close> and flushes it to the
  connection. \<open>writeBody\<close> returns the error of \<open>io.Copy\<close>, which is the write error or else
  the error of reading the file; that the file cannot be opened is no error.\<close>

definition writeStatusLine :: "Response \<Rightarrow> Conn \<Rightarrow> error option \<times> Conn" where
  "writeStatusLine res conn =
     (let statusLine =
            Response.Proto res @ '' '' @ Sprint (StatusCode res) @ '' '' @
            statusText (StatusCode res) @ CRLF
      in conn_Write statusLine conn)"

definition header_line :: "Response \<Rightarrow> string \<Rightarrow> string" where
  "header_line res k =
     k @ '': '' @ (case fmlookup (Response.Headers res) k of None \<Rightarrow> [] | Some v \<Rightarrow> v) @ CRLF"

definition writeHeaders :: "Response \<Rightarrow> Conn \<Rightarrow> error option \<times> Conn" where
  "writeHeaders res conn =
     (let keys = sorted_list_of_fset (fmdom (Response.Headers res))
      in conn_Write (concat (map (header_line res) keys) @ CRLF) conn)"

definition writeBody :: "Env \<Rightarrow> Response \<Rightarrow> Conn \<Rightarrow> error option \<times> Conn" where
  "writeBody w res conn =
     (if FilePath res = [] then (None, conn)
      else
        (case Open w (FilePath res) of
           None \<Rightarrow> (None, conn)
         | Some (ReadAll bytes) \<Rightarrow> conn_Write bytes conn
         | Some (ReadFails bytes) \<Rightarrow>
             (case conn_Write bytes conn of
                (Some err, conn) \<Rightarrow> (Some err, conn)
              | (None, conn) \<Rightarrow> (Some ReadFailure, conn))))"

definition Write :: "Env \<Rightarrow> Response \<Rightarrow> Conn \<Rightarrow> error option \<times> Conn" where
  "Write w res conn =
     (case writeStatusLine res conn of
        (Some err, conn) \<Rightarrow> (Some err, conn)
      | (None, conn) \<Rightarrow>
          (case writeHeaders res conn of
             (Some err, conn) \<Rightarrow> (Some err, conn)
           | (None, conn) \<Rightarrow>
               (case writeBody w res conn of
                  (Some err, conn) \<Rightarrow> (Some err, conn)
                | (None, conn) \<Rightarrow> (None, conn))))"

subsection \<open>The connection handler\<close>

text \<open>
  One turn of the loop of \<open>handleClientConnections\<close>: the handler goes round again, or it
  has closed the connection and returned, or it has panicked. A request that is nil
  although the error is nil would be dereferenced by \<open>handleGoodRequest\<close>.
\<close>

datatype step = Again Conn | Done Conn | Crash

definition serve :: "Server \<Rightarrow> Env \<Rightarrow> Conn \<Rightarrow> step" where
  "serve s w conn =
     (case SetReadDeadline conn of
        (Some err, conn) \<Rightarrow> Done (conn_Close conn)
      | (None, conn) \<Rightarrow>
          (case readRequest w (reader conn) of
             Panic \<Rightarrow> Crash
           | Returned (req, noReq, err, br) \<Rightarrow>
               let conn = conn\<lparr>reader := br\<rparr> in
               if err = Some EOF then Done (conn_Close conn)
               else if err = Some Timeout then
                 (if noReq then Done (conn_Close conn)
                  else
                    let res = handleBadRequest w req zeroResponse;
                        (werr, conn) = Write w res conn
                    in Done (conn_Close conn))
               else if err \<noteq> None then
                 (let res = handleBadRequest w req zeroResponse;
                      (werr, conn) = Write w res conn
                  in Done (conn_Close conn))
               else
                 (case req of
                    None \<Rightarrow> Crash
                  | Some r \<Rightarrow>
                      (case handleGoodRequest s w r of
                         Panic \<Rightarrow> Crash
                       | Returned res \<Rightarrow>
                           let (werr, conn) = Write w res conn
                           in if Close r then Done (conn_Close conn) else Again conn))))"

lemma readLine_queued:
  "readLine br = ((line, None), br') \<Longrightarrow> length (queued br') < length (queued br)"
  by (auto simp: readLine_def split: list.splits)

lemma readHeaders_queued:
  "length (queued (snd (readHeaders w br hs))) \<le> length (queued br)"
proof (induction w br hs rule: readHeaders.induct)
  case (1 w br hs)
  show ?case
  proof (cases "readLine br")
    case (Pair le br')
    obtain line e where le: "le = (line, e)" by (cases le)
    show ?thesis
    proof (cases e)
      case (Some err)
      with Pair le show ?thesis
        by (subst readHeaders.simps) (auto simp: readLine_def split: list.splits)
    next
      case None
      from Pair le None have rl: "readLine br = ((line, None), br')" by simp
      have lt: "length (queued br') < length (queued br)" by (rule readLine_queued [OF rl])
      show ?thesis
      proof (cases "line = [] \<or> \<not> Contains line (CHR '':'')")
        case True
        with rl lt show ?thesis by (subst readHeaders.simps) auto
      next
        case False
        then have a: "line \<noteq> []" and b: "Contains line (CHR '':'')" by auto
        have "length (queued (snd (readHeaders w br'
                 (fmupd (CanonicalHeaderKey w (Split line (CHR '':'') ! 0))
                        (TrimLeft (Split line (CHR '':'') ! 1) (CHR '' '')) hs))))
              \<le> length (queued br')"
          using "1.IH" [OF rl [symmetric] refl refl a] b by simp
        with rl lt a b show ?thesis
          by (subst readHeaders.simps) (simp add: Let_def)
      qed
    qed
  qed
qed

lemma readRequest_queued:
  assumes "readRequest w br = Returned (Some req, f, None, br')"
  shows "length (queued br') < length (queued br)"
proof -
  obtain line e br1 where rl: "readLine br = ((line, e), br1)"
    by (metis prod.exhaust)
  from assms rl obtain e': "e = None"
    by (cases e) (auto simp: readRequest_def)
  from rl e' have lt: "length (queued br1) < length (queued br)"
    by (auto intro: readLine_queued)
  from assms rl e' have "br' = snd (readHeaders w br1 fmempty)"
    by (auto simp: readRequest_def Let_def split: prod.splits option.splits if_splits sum.splits)
  with readHeaders_queued [of w br1 fmempty] lt show ?thesis by simp
qed

lemma conn_Write_reader: "reader (snd (conn_Write bs conn)) = reader conn"
  by (simp add: conn_Write_def split: option.splits)

lemma conn_Write_reader_eq: "conn_Write bs conn = (e, conn') \<Longrightarrow> reader conn' = reader conn"
  using conn_Write_reader [of bs conn] by simp

lemma writeBody_reader: "reader (snd (writeBody w res conn)) = reader conn"
proof (cases "FilePath res = []")
  case True
  then show ?thesis by (simp add: writeBody_def)
next
  case ne: False
  show ?thesis
  proof (cases "Open w (FilePath res)")
    case None
    with ne show ?thesis by (simp add: writeBody_def)
  next
    case (Some f)
    show ?thesis
    proof (cases f)
      case (ReadAll bytes)
      with ne Some show ?thesis by (simp add: writeBody_def conn_Write_reader)
    next
      case (ReadFails bytes)
      obtain e c' where cw: "conn_Write bytes conn = (e, c')" by (metis prod.exhaust)
      with conn_Write_reader [of bytes conn] have "reader c' = reader conn" by simp
      with ne Some ReadFails cw show ?thesis by (cases e) (simp_all add: writeBody_def)
    qed
  qed
qed

lemma Write_reader: "reader (snd (Write w res conn)) = reader conn"
proof -
  obtain e1 c1 where s1: "writeStatusLine res conn = (e1, c1)" by (metis prod.exhaust)
  obtain e2 c2 where s2: "writeHeaders res c1 = (e2, c2)" by (metis prod.exhaust)
  obtain e3 c3 where s3: "writeBody w res c2 = (e3, c3)" by (metis prod.exhaust)
  have r1: "reader c1 = reader conn"
    using s1 by (auto simp: writeStatusLine_def dest: conn_Write_reader_eq)
  have r2: "reader c2 = reader c1"
    using s2 by (auto simp: writeHeaders_def dest: conn_Write_reader_eq)
  have r3: "reader c3 = reader c2"
    using s3 writeBody_reader [of w res c2] by simp
  show ?thesis
    using s1 s2 s3 r1 r2 r3 by (cases e1; cases e2; cases e3) (simp_all add: Write_def)
qed

lemma Write_reader_eq: "Write w res conn = (e, conn') \<Longrightarrow> reader conn' = reader conn"
  using Write_reader [of w res conn] by simp

lemma serve_Again_queued:
  assumes "serve s w conn = Again conn'"
  shows "length (queued (reader conn')) < length (queued (reader conn))"
proof -
  obtain e c1 where sd: "SetReadDeadline conn = (e, c1)" by (metis prod.exhaust)
  have r1: "reader c1 = reader conn"
    using sd by (auto simp: SetReadDeadline_def split: list.splits)
  show ?thesis
    using assms sd r1
    by (auto simp: serve_def Let_def
             split: prod.splits option.splits if_splits outcome.splits
             dest!: readRequest_queued Write_reader_eq)
qed

text \<open>\<open>handleClientConnections\<close>: the loop, on a connection whose reader has been made.\<close>

function handleClientConnections :: "Server \<Rightarrow> Env \<Rightarrow> Conn \<Rightarrow> Conn outcome" where
  "handleClientConnections s w conn =
     (case serve s w conn of
        Again conn' \<Rightarrow> handleClientConnections s w conn'
      | Done conn' \<Rightarrow> Returned conn'
      | Crash \<Rightarrow> Panic)"
  by pat_completeness auto
termination
  by (relation "measure (\<lambda>(s, w, conn). length (queued (reader conn)))")
     (auto dest: serve_Again_queued)

declare handleClientConnections.simps [simp del]

subsection \<open>The header block and the specification's conditions\<close>

text \<open>What one turn of the header loop stores, and the parts of the lines after the
  request line: the header lines before the first empty line, whether there is an empty
  line, and the lines after it.\<close>

definition header_key :: "Env \<Rightarrow> string \<Rightarrow> string" where
  "header_key w line = CanonicalHeaderKey w (Split line (CHR '':'') ! 0)"

definition header_value :: "string \<Rightarrow> string" where
  "header_value line = TrimLeft (Split line (CHR '':'') ! 1) (CHR '' '')"

definition store_header :: "Env \<Rightarrow> string \<Rightarrow> (string, string) fmap \<Rightarrow> (string, string) fmap" where
  "store_header w line hs = fmupd (header_key w line) (header_value line) hs"

definition header_block :: "string list \<Rightarrow> string list" where
  "header_block ls = takeWhile (\<lambda>l. l \<noteq> []) ls"

definition terminated :: "string list \<Rightarrow> bool" where
  "terminated ls = ([] \<in> set ls)"

definition after_block :: "string list \<Rightarrow> string list" where
  "after_block ls = tl (dropWhile (\<lambda>l. l \<noteq> []) ls)"

text \<open>
  The reasons for a bad request in the words of the specification (section 4.2): the
  request line does not split into exactly three fields, the method is not \<open>GET\<close>, the
  target does not begin with a slash, the version is not \<open>HTTP/1.1\<close>, a header line has
  no colon, or the empty line is reached and no \<open>Host\<close> header has been stored.
\<close>

definition spec_bad_request_line :: "string \<Rightarrow> bool" where
  "spec_bad_request_line line =
     (let fs = SplitN line (CHR '' '') 3 in
      length fs \<noteq> 3 \<or> fs ! 0 \<noteq> ''GET'' \<or> \<not> HasPrefix (fs ! 1) ''/'' \<or>
      fs ! 2 \<noteq> ''HTTP/1.1'')"

definition spec_bad_request :: "Env \<Rightarrow> string list \<Rightarrow> bool" where
  "spec_bad_request w ls =
     (case ls of
        [] \<Rightarrow> False
      | line # rest \<Rightarrow>
          spec_bad_request_line line \<or>
          (\<exists>h \<in> set (header_block rest). \<not> Contains h (CHR '':'')) \<or>
          (terminated rest \<and> ''Host'' \<notin> set (map (header_key w) (header_block rest))))"

text \<open>The errors that the parser makes itself, and the errors of reading a line.\<close>

definition parse_failure :: "error \<Rightarrow> bool" where
  "parse_failure e = (case e of RequestLineError fs \<Rightarrow> True | Errorf msg \<Rightarrow> True | _ \<Rightarrow> False)"

definition read_failure :: "error \<Rightarrow> bool" where
  "read_failure e = (e = EOF \<or> e = Timeout \<or> e = ReadFailure)"

text \<open>The invariants of a request, and the request that the parser builds from a request
  line and a header map.\<close>

definition valid_request :: "Request \<Rightarrow> bool" where
  "valid_request req =
     (Method req = ''GET'' \<and> HasPrefix (URL req) ''/'' \<and> Request.Proto req = ''HTTP/1.1'' \<and>
      fmlookup (Request.Headers req) ''Host'' = Some (Host req))"

definition parsed_request :: "string \<Rightarrow> (string, string) fmap \<Rightarrow> Request" where
  "parsed_request line hs =
     \<lparr>Method = SplitN line (CHR '' '') 3 ! 0, URL = SplitN line (CHR '' '') 3 ! 1,
      Proto = SplitN line (CHR '' '') 3 ! 2, Headers = hs,
      Host = (case fmlookup hs ''Host'' of None \<Rightarrow> [] | Some h \<Rightarrow> h),
      Close = (fmlookup hs ''Connection'' = Some ''close'')\<rparr>"

text \<open>The bytes of the response to a bad request.\<close>

definition bad_request_bytes :: "Env \<Rightarrow> string" where
  "bad_request_bytes w =
     ''HTTP/1.1 400 Bad Request'' @ CRLF @
     ''Connection: close'' @ CRLF @
     ''Date: '' @ FormatTime w (Now w) @ CRLF @
     CRLF"

subsection \<open>The wire format and its reader\<close>

text \<open>
  The wire format of a response in the words of the specification (sections 4.5 and 6):
  the status line \<open>VERSION SP CODE SP REASON CRLF\<close> and one line \<open>Key: Value CRLF\<close> for each
  header.
\<close>

definition wire_status_line :: "Response \<Rightarrow> string" where
  "wire_status_line res =
     Response.Proto res @ '' '' @ Sprint (StatusCode res) @ '' '' @ statusText (StatusCode res) @ CRLF"

definition wire_header :: "Response \<Rightarrow> string \<Rightarrow> string" where
  "wire_header res k = k @ '': '' @ the (fmlookup (Response.Headers res) k) @ CRLF"

text \<open>
  Reading a response back, as section 6 describes the format: lines end at CRLF; the
  status line is cut at its first two spaces and its code is a decimal number; each
  header line is cut at its first colon and the spaces before the value are skipped; the
  header block ends at the empty line. \<open>take_line\<close> cuts the bytes at the first CRLF.
\<close>

fun take_line :: "string \<Rightarrow> (string \<times> string) option" where
  "take_line [] = None"
| "take_line [c] = None"
| "take_line (c # d # cs) =
     (if c = CR \<and> d = LF then Some ([], cs)
      else (case take_line (d # cs) of
              None \<Rightarrow> None
            | Some (l, rest) \<Rightarrow> Some (c # l, rest)))"

definition digit_val :: "char \<Rightarrow> nat option" where
  "digit_val c = (if c \<in> set ''0123456789'' then Some (of_char c - 48) else None)"

fun parse_digits :: "string \<Rightarrow> nat \<Rightarrow> nat option" where
  "parse_digits [] acc = Some acc"
| "parse_digits (c # cs) acc =
     (case digit_val c of None \<Rightarrow> None | Some d \<Rightarrow> parse_digits cs (acc * 10 + d))"

definition parse_nat :: "string \<Rightarrow> nat option" where
  "parse_nat ds = (if ds = [] then None else parse_digits ds 0)"

definition parse_int :: "string \<Rightarrow> int option" where
  "parse_int ds =
     (case ds of
        [] \<Rightarrow> None
      | c # cs \<Rightarrow>
          if c = CHR ''-'' then map_option (\<lambda>n. - int n) (parse_nat cs)
          else map_option int (parse_nat ds))"

definition parse_status_line :: "string \<Rightarrow> (string \<times> int \<times> string) option" where
  "parse_status_line l =
     (case SplitN l (CHR '' '') 3 of
        [version, code, reason] \<Rightarrow>
          (case parse_int code of None \<Rightarrow> None | Some n \<Rightarrow> Some (version, n, reason))
      | _ \<Rightarrow> None)"

lemma take_line_shorter: "take_line bs = Some (l, rest) \<Longrightarrow> length rest < length bs"
  by (induction bs arbitrary: l rule: take_line.induct)
     (auto split: if_splits option.splits)

function parse_header_block :: "string \<Rightarrow> (string, string) fmap \<Rightarrow> (string, string) fmap option" where
  "parse_header_block bs hs =
     (case take_line bs of
        None \<Rightarrow> None
      | Some (l, rest) \<Rightarrow>
          if l = [] then Some hs
          else if CHR '':'' \<notin> set l then None
          else parse_header_block rest
                 (fmupd (takeWhile (\<lambda>x. x \<noteq> CHR '':'') l)
                        (dropWhile (\<lambda>x. x = CHR '' '') (tl (dropWhile (\<lambda>x. x \<noteq> CHR '':'') l)))
                        hs))"
  by pat_completeness auto
termination
  by (relation "measure (\<lambda>(bs, hs). length bs)") (auto dest: take_line_shorter)

declare parse_header_block.simps [simp del]

definition parse_response :: "string \<Rightarrow> (int \<times> (string, string) fmap) option" where
  "parse_response bs =
     (case take_line bs of
        None \<Rightarrow> None
      | Some (l, rest) \<Rightarrow>
          (case parse_status_line l of
             None \<Rightarrow> None
           | Some (version, code, reason) \<Rightarrow>
               (case parse_header_block rest fmempty of
                  None \<Rightarrow> None
                | Some hs \<Rightarrow> Some (code, hs))))"

text \<open>
  A response is safe for the wire when its protocol string, header names and header
  values hold no line break, the protocol string holds no space, no header name holds a
  colon and no header value begins with a space.
\<close>

definition no_line_break :: "string \<Rightarrow> bool" where
  "no_line_break s = (CR \<notin> set s \<and> LF \<notin> set s)"

definition wire_safe :: "Response \<Rightarrow> bool" where
  "wire_safe res =
     (no_line_break (Response.Proto res) \<and> CHR '' '' \<notin> set (Response.Proto res) \<and>
      (\<forall>k \<in> fset (fmdom (Response.Headers res)).
         no_line_break k \<and> CHR '':'' \<notin> set k \<and>
         no_line_break (the (fmlookup (Response.Headers res) k)) \<and>
         \<not> HasPrefix (the (fmlookup (Response.Headers res) k)) '' ''))"

subsection \<open>The scenario of the specification\<close>

text \<open>
  The host \<open>example.com\<close> is served from \<open>/srv/www\<close>, where \<open>index.html\<close> is a file of five
  bytes, \<open>docs\<close> is a directory and nothing else exists; a path that goes through the
  file \<open>index.html\<close> as if it were a directory makes \<open>os.Stat\<close> fail with \<open>ENOTDIR\<close>, which
  is not \<open>os.ErrNotExist\<close>. The three functions whose source is absent get stand-ins.
\<close>

text \<open>
  Modelled from the spec: \<open>CanonicalHeaderKey\<close> is absent from the source. Section 4.2
  says that each hyphen-separated segment of the name is capitalized and its remaining
  characters are lowercased.
\<close>

definition lower_case :: string where "lower_case = ''abcdefghijklmnopqrstuvwxyz''"
definition upper_case :: string where "upper_case = ''ABCDEFGHIJKLMNOPQRSTUVWXYZ''"

definition to_upper :: "char \<Rightarrow> char" where
  "to_upper c = (case map_of (zip lower_case upper_case) c of None \<Rightarrow> c | Some u \<Rightarrow> u)"

definition to_lower :: "char \<Rightarrow> char" where
  "to_lower c = (case map_of (zip upper_case lower_case) c of None \<Rightarrow> c | Some l \<Rightarrow> l)"

definition canonical_segment :: "string \<Rightarrow> string" where
  "canonical_segment seg = (case seg of [] \<Rightarrow> [] | c # cs \<Rightarrow> to_upper c # map to_lower cs)"

definition spec_CanonicalHeaderKey :: "string \<Rightarrow> string" where
  "spec_CanonicalHeaderKey name =
     join_sep (CHR ''-'') (map canonical_segment (Split name (CHR ''-'')))"

text \<open>
  Modelled from the spec: \<open>FormatTime\<close> and \<open>MIMETypeByExtension\<close> are absent from the
  source. Section 4.4 speaks of a fixed wire timestamp format and of a lookup by file
  extension that defaults to a generic octet type; the stand-ins print one fixed date in
  that format and know one extension.
\<close>

definition scenario_FormatTime :: "nat \<Rightarrow> string" where
  "scenario_FormatTime t = ''Thu, 01 Jan 1970 00:00:00 GMT''"

definition scenario_MIMEType :: "string \<Rightarrow> string" where
  "scenario_MIMEType ext =
     (if ext = ''.html'' then ''text/html; charset=utf-8'' else ''application/octet-stream'')"

definition scenario_Stat :: "string \<Rightarrow> stat_error + FileInfo" where
  "scenario_Stat path =
     (if path = ''/srv/www/index.html'' then Inr \<lparr>IsDir = False, Size = 5, ModTime = 0\<rparr>
      else if path = ''/srv/www/docs'' then Inr \<lparr>IsDir = True, Size = 4096, ModTime = 0\<rparr>
      else if HasPrefix path ''/srv/www/index.html/'' then Inl ErrOther
      else Inl ErrNotExist)"

definition scenario_Open :: "string \<Rightarrow> opened option" where
  "scenario_Open path =
     (if path = ''/srv/www/index.html'' then Some (ReadAll ''hello'')
      else if path = ''/srv/www/docs'' then Some (ReadFails [])
      else None)"

definition scenarioEnv :: Env where
  "scenarioEnv =
     \<lparr>Stat = scenario_Stat, Open = scenario_Open, Now = 0,
      CanonicalHeaderKey = spec_CanonicalHeaderKey,
      FormatTime = scenario_FormatTime,
      MIMETypeByExtension = scenario_MIMEType\<rparr>"

definition scenarioServer :: Server where
  "scenarioServer = \<lparr>Addr = '':8080'', VirtualHosts = fmupd ''example.com'' ''/srv/www'' fmempty\<rparr>"

text \<open>A fresh connection on which the given bytes arrive before the final condition;
  every write and every \<open>SetReadDeadline\<close> succeeds.\<close>

definition newConn :: "string \<Rightarrow> error \<Rightarrow> Conn" where
  "newConn bytes final =
     \<lparr>reader = NewReader bytes final, sent = [], room = None, deadlineErrs = [],
      closed = False\<rparr>"

text \<open>Two requests of the scenario: one that climbs out of the document root, and one
  that asks for \<open>/index.html/\<close>.\<close>

definition traversalRequest :: Request where
  "traversalRequest =
     \<lparr>Method = ''GET'', URL = ''/../../etc/passwd'', Proto = ''HTTP/1.1'',
      Headers = fmupd ''Host'' ''example.com'' fmempty, Host = ''example.com'', Close = False\<rparr>"

definition indexSlashRequest :: Request where
  "indexSlashRequest =
     \<lparr>Method = ''GET'', URL = ''/index.html/'', Proto = ''HTTP/1.1'',
      Headers = fmupd ''Host'' ''example.com'' fmempty, Host = ''example.com'', Close = False\<rparr>"

text \<open>A response with a header value that holds a line break.\<close>

definition injectedResponse :: Response where
  "injectedResponse =
     \<lparr>Proto = ''HTTP/1.1'', StatusCode = 200, StatusText = ''OK'',
      Headers = fmupd ''X-Note'' (''a'' @ CRLF @ ''Connection: close'') fmempty,
      Request = None, FilePath = []\<rparr>"

section \<open>Properties\<close>

subsection \<open>The line reader\<close>

lemma readLine_Cons: "queued br = l # ls \<Longrightarrow> readLine br = ((l, None), br\<lparr>queued := ls\<rparr>)"
  by (simp add: readLine_def)

lemma readLine_Nil: "queued br = [] \<Longrightarrow> readLine br = (([], Some (terminal br)), br)"
  by (simp add: readLine_def)

subsection \<open>The parser panics on an empty target\<close>

text \<open>The parser panics exactly when the first line splits into three fields of which the
  first is \<open>GET\<close> and the second is empty.\<close>

lemma readRequest_Panic_iff:
  "readRequest w br = Panic \<longleftrightarrow>
     (\<exists>line rest v. queued br = line # rest \<and> SplitN line (CHR '' '') 3 = [''GET'', [], v])"
proof
  assume p: "readRequest w br = Panic"
  show "\<exists>line rest v. queued br = line # rest \<and> SplitN line (CHR '' '') 3 = [''GET'', [], v]"
  proof (cases "queued br")
    case Nil
    with p show ?thesis by (simp add: readRequest_def readLine_Nil)
  next
    case (Cons line rest)
    let ?fs = "SplitN line (CHR '' '') 3"
    from p Cons have len: "length ?fs = 3" and m: "?fs ! 0 = ''GET''" and u: "?fs ! 1 = []"
      by (auto simp: readRequest_def readLine_Cons parseRequestLine_def Let_def
               split: if_splits prod.splits sum.splits option.splits)
    from len obtain a b c where fs: "?fs = [a, b, c]"
      by (cases ?fs; cases "tl ?fs"; cases "tl (tl ?fs)") (auto simp: numeral_3_eq_3)
    with m u have "?fs = [''GET'', [], c]" by simp
    with Cons show ?thesis by blast
  qed
next
  assume "\<exists>line rest v. queued br = line # rest \<and> SplitN line (CHR '' '') 3 = [''GET'', [], v]"
  then show "readRequest w br = Panic"
    by (auto simp: readRequest_def readLine_Cons parseRequestLine_def Let_def)
qed

text \<open>
  C9. There are inputs whose request line splits into exactly three fields with an empty
  second field for which \<open>req.URL[0]\<close> is out of bounds: whenever the first line splits
  into \<open>GET\<close>, the empty string and a third field, \<open>readRequest\<close> panics instead of
  returning its \<open>400: Invalid URL\<close> error. The line \<open>GET  HTTP/1.1\<close>, with two spaces, is
  such an input.
\<close>

theorem empty_target_panics:
  assumes "queued br = line # rest"
    and "SplitN line (CHR '' '') 3 = [''GET'', [], v]"
  shows "readRequest w br = Panic"
  using assms
  by (simp add: readRequest_def readLine_Cons parseRequestLine_def Let_def)

theorem empty_target_panics_witness:
  "readRequest scenarioEnv (NewReader ''GET  HTTP/1.1'' EOF) = Panic"
proof -
  have q: "queued (NewReader ''GET  HTTP/1.1'' EOF) = ''GET  HTTP/1.1'' # []"
    by code_simp
  have s: "SplitN ''GET  HTTP/1.1'' (CHR '' '') 3 = [''GET'', [], ''HTTP/1.1'']"
    by code_simp
  show ?thesis by (rule empty_target_panics [OF q s])
qed

subsection \<open>Splitting\<close>

lemma count_list_dropWhile_Nil:
  "dropWhile (\<lambda>x. x \<noteq> c) s = [] \<Longrightarrow> count_list s c = 0"
  by (induction s) (auto split: if_splits)

lemma count_list_dropWhile_Cons:
  "dropWhile (\<lambda>x. x \<noteq> c) s = a # rest \<Longrightarrow> count_list s c = Suc (count_list rest c)"
  by (induction s) (auto split: if_splits)

lemma takeWhile_dropWhile_Nil:
  "dropWhile P s = [] \<Longrightarrow> takeWhile P s = s"
  by (induction s) (auto split: if_splits)

lemma Split_Nil:
  "dropWhile (\<lambda>x. x \<noteq> c) s = [] \<Longrightarrow> Split s c = [s]"
  by (simp only: Split_def count_list_dropWhile_Nil SplitN.simps)

lemma Split_Cons:
  assumes "dropWhile (\<lambda>x. x \<noteq> c) s = a # rest"
  shows "Split s c = takeWhile (\<lambda>x. x \<noteq> c) s # Split rest c"
proof -
  have "Split s c = SplitN s c (Suc (Suc (count_list rest c)))"
    by (simp only: Split_def count_list_dropWhile_Cons [OF assms])
  also have "\<dots> = takeWhile (\<lambda>x. x \<noteq> c) s # SplitN rest c (Suc (count_list rest c))"
    by (simp only: SplitN.simps assms list.case)
  finally show ?thesis by (simp only: Split_def)
qed

lemma Split_nonempty: "Split s c \<noteq> []"
  by (cases "dropWhile (\<lambda>x. x \<noteq> c) s") (simp_all only: Split_Nil Split_Cons list.distinct not_False_eq_True)

lemma Split_hd: "Split s c ! 0 = takeWhile (\<lambda>x. x \<noteq> c) s"
proof (cases "dropWhile (\<lambda>x. x \<noteq> c) s")
  case Nil
  show ?thesis by (simp only: Split_Nil [OF Nil] takeWhile_dropWhile_Nil [OF Nil] nth_Cons_0)
next
  case (Cons a rest)
  show ?thesis by (simp only: Split_Cons [OF Cons] nth_Cons_0)
qed

lemma Split_snd:
  assumes "Contains s c"
  shows "Split s c ! Suc 0 = takeWhile (\<lambda>x. x \<noteq> c) (tl (dropWhile (\<lambda>x. x \<noteq> c) s))"
    and "2 \<le> length (Split s c)"
proof -
  from assms obtain a rest where d: "dropWhile (\<lambda>x. x \<noteq> c) s = a # rest"
    by (cases "dropWhile (\<lambda>x. x \<noteq> c) s") (auto simp: Contains_def dropWhile_eq_Nil_conv)
  have s: "Split s c = takeWhile (\<lambda>x. x \<noteq> c) s # Split rest c"
    by (rule Split_Cons [OF d])
  show "Split s c ! Suc 0 = takeWhile (\<lambda>x. x \<noteq> c) (tl (dropWhile (\<lambda>x. x \<noteq> c) s))"
    using Split_hd [of rest c] by (simp add: s d)
  show "2 \<le> length (Split s c)"
    using Split_nonempty [of rest c] by (cases "Split rest c") (simp_all add: s)
qed

subsection \<open>What the header loop stores\<close>

text \<open>A line with a colon is stored under the canonical form of what precedes the first
  colon; the value is what lies between the first colon and the second (or the end of
  the line), without its leading spaces.\<close>

lemma readHeaders_step:
  assumes "queued br = line # rest" and "line \<noteq> []" and "Contains line (CHR '':'')"
  shows "readHeaders w br hs =
         readHeaders w (br\<lparr>queued := rest\<rparr>)
           (fmupd (CanonicalHeaderKey w (takeWhile (\<lambda>x. x \<noteq> CHR '':'') line))
                  (dropWhile (\<lambda>x. x = CHR '' '')
                     (takeWhile (\<lambda>x. x \<noteq> CHR '':'') (tl (dropWhile (\<lambda>x. x \<noteq> CHR '':'') line))))
                  hs)"
  using assms
  by (subst readHeaders.simps)
     (simp add: readLine_Cons Let_def Split_hd Split_snd(1) [OF assms(3)] TrimLeft_def)

text \<open>
  C4. The claim says that the stored value is the whole remainder of the line after the
  first colon. The parser splits at every colon and keeps the second piece only: for the
  header line \<open>Host: localhost:8080\<close> it stores \<open>localhost\<close>, not \<open>localhost:8080\<close>.
\<close>

theorem host_value_cut_at_second_colon:
  "(case readRequest scenarioEnv
           (NewReader (''GET / HTTP/1.1'' @ CRLF @ ''Host: localhost:8080'' @ CRLF @ CRLF) EOF) of
      Returned (Some req, rest) \<Rightarrow> fmlookup (Request.Headers req) ''Host''
    | _ \<Rightarrow> None) = Some ''localhost''"
  by code_simp

subsection \<open>The resolver\<close>

lemma handleNotFound_fields:
  "StatusCode (handleNotFound w req res) = 404"
  "StatusText (handleNotFound w req res) = ''Not Found''"
  "FilePath (handleNotFound w req res) = []"
  by (simp_all add: handleNotFound_def Let_def statusNotFound_def statusText_def statusOK_def
        statusBadRequest_def)

lemma init_FilePath: "FilePath (init w req res) = FilePath res"
  by (simp add: init_def Let_def split: option.splits)

lemma handleOK_Panic: "handleOK w req res = Panic \<longleftrightarrow> (\<exists>e. Stat w (FilePath res) = Inl e)"
  by (auto simp: handleOK_def Let_def init_FilePath split: sum.splits)

text \<open>\<open>handleGoodRequest\<close> for a non-empty URL, in terms of the names above.\<close>

lemma handleGoodRequest_eq:
  assumes "URL req \<noteq> []"
  shows "handleGoodRequest s w req =
     (case relative_location s req of
        Inl err \<Rightarrow> Returned (handleNotFound w (Some (req\<lparr>URL := resolved_URL req\<rparr>)) zeroResponse)
      | Inr rel \<Rightarrow>
          if HasPrefix rel ''..''
          then Returned (handleNotFound w (Some (req\<lparr>URL := resolved_URL req\<rparr>)) zeroResponse)
          else
            (case Stat w (resolved_path s req) of
               Inl ErrNotExist \<Rightarrow>
                 Returned (handleNotFound w (Some (req\<lparr>URL := resolved_URL req\<rparr>)) zeroResponse)
             | Inl ErrOther \<Rightarrow> Panic
             | Inr fi \<Rightarrow>
                 if IsDir fi
                 then Returned (handleNotFound w (Some (req\<lparr>URL := resolved_URL req\<rparr>)) zeroResponse)
                 else handleOK w (Some (req\<lparr>URL := resolved_URL req\<rparr>))
                        (zeroResponse\<lparr>FilePath := resolved_path s req\<rparr>)))"
proof (cases "last (URL req) = CHR ''/''")
  case True
  with assms show ?thesis
    by (simp add: handleGoodRequest_def Let_def relative_location_def resolved_path_def
          docroot_of_def resolved_URL_def del: Join.simps
          cong: sum.case_cong stat_error.case_cong if_cong)
next
  case False
  with assms show ?thesis
    by (simp add: handleGoodRequest_def Let_def relative_location_def resolved_path_def
          docroot_of_def resolved_URL_def del: Join.simps
          cong: sum.case_cong stat_error.case_cong if_cong)
qed

text \<open>
  C1. For a validated request (its target begins with a slash) and any virtual hosts:
  when \<open>filepath.Rel\<close> fails, or the location of the joined path relative to the base
  directory is outside the base directory, the resolver returns the response of
  \<open>handleNotFound\<close>, whose status is 404 and which has no file to serve. The witness is the
  target \<open>/../../etc/passwd\<close> against the base directory \<open>/srv/www\<close>.
\<close>

theorem traversal_not_found:
  assumes "HasPrefix (URL req) ''/''"
    and "(\<exists>err. relative_location s req = Inl err) \<or>
         (\<exists>rel. relative_location s req = Inr rel \<and> outside_base rel)"
  shows "handleGoodRequest s w req =
           Returned (handleNotFound w (Some (req\<lparr>URL := resolved_URL req\<rparr>)) zeroResponse) \<and>
         StatusCode (handleNotFound w (Some (req\<lparr>URL := resolved_URL req\<rparr>)) zeroResponse) = 404 \<and>
         FilePath (handleNotFound w (Some (req\<lparr>URL := resolved_URL req\<rparr>)) zeroResponse) = []"
proof -
  from assms(1) have ne: "URL req \<noteq> []" by (auto simp: HasPrefix_def)
  have pre: "HasPrefix rel ''..''" if o: "outside_base rel" for rel
  proof (cases "rel = ''..''")
    case True
    then show ?thesis by (simp add: HasPrefix_def)
  next
    case False
    with o have t: "take (length ''../'') rel = ''../''"
      by (simp only: outside_base_def HasPrefix_def) simp
    have "take (length ''..'') rel = take (length ''..'') (take (length ''../'') rel)" by simp
    also have "\<dots> = take (length ''..'') ''../''" by (simp only: t)
    also have "\<dots> = ''..''" by simp
    finally show ?thesis by (simp only: HasPrefix_def)
  qed
  show ?thesis
    using assms(2) ne pre
    by (auto simp: handleGoodRequest_def Let_def relative_location_def resolved_path_def
          docroot_of_def resolved_URL_def handleNotFound_fields)
qed


theorem traversal_not_found_witness:
  "handleGoodRequest scenarioServer scenarioEnv traversalRequest =
     Returned (handleNotFound scenarioEnv
                 (Some (traversalRequest\<lparr>URL := resolved_URL traversalRequest\<rparr>)) zeroResponse) \<and>
   StatusCode (handleNotFound scenarioEnv
                 (Some (traversalRequest\<lparr>URL := resolved_URL traversalRequest\<rparr>)) zeroResponse) = 404 \<and>
   FilePath (handleNotFound scenarioEnv
                 (Some (traversalRequest\<lparr>URL := resolved_URL traversalRequest\<rparr>)) zeroResponse) = []"
proof -
  have a: "HasPrefix (URL traversalRequest) ''/''"
    by (simp add: traversalRequest_def HasPrefix_def)
  have r: "relative_location scenarioServer traversalRequest = Inr ''../../etc/passwd''"
    by code_simp
  have o: "outside_base ''../../etc/passwd''"
    by (simp add: outside_base_def HasPrefix_def)
  from r o have b: "(\<exists>err. relative_location scenarioServer traversalRequest = Inl err) \<or>
         (\<exists>rel. relative_location scenarioServer traversalRequest = Inr rel \<and> outside_base rel)"
    by simp
  show ?thesis by (rule traversal_not_found [OF a b])
qed

text \<open>
  C10. For a validated request, \<open>handleGoodRequest\<close> panics exactly when the path passes the
  traversal check and \<open>os.Stat\<close> fails with an error other than not-exist: \<open>fi\<close> is nil then
  and \<open>fi.IsDir()\<close> dereferences it. So the call is safe only if \<open>os.Stat\<close> succeeds or
  reports not-exist. The witness is the target \<open>/index.html/\<close>, which resolves to a path
  through the file \<open>index.html\<close>.
\<close>

theorem stat_error_panics:
  assumes "HasPrefix (URL req) ''/''"
  shows "handleGoodRequest s w req = Panic \<longleftrightarrow>
           (\<exists>rel. relative_location s req = Inr rel \<and> \<not> HasPrefix rel ''..'' \<and>
                  Stat w (resolved_path s req) = Inl ErrOther)"
proof -
  from assms have ne: "URL req \<noteq> []" by (auto simp: HasPrefix_def)
  note eq = handleGoodRequest_eq [OF ne, of s w]
  show ?thesis
  proof (cases "relative_location s req")
    case (Inl err)
    with eq show ?thesis by simp
  next
    case (Inr rel)
    show ?thesis
    proof (cases "HasPrefix rel ''..''")
      case True
      with eq Inr show ?thesis by simp
    next
      case np: False
      show ?thesis
      proof (cases "Stat w (resolved_path s req)")
        case (Inl e)
        with eq Inr np show ?thesis by (cases e) simp_all
      next
        case st: (Inr fi)
        have "handleOK w (Some (req\<lparr>URL := resolved_URL req\<rparr>))
                (zeroResponse\<lparr>FilePath := resolved_path s req\<rparr>) \<noteq> Panic"
          using st by (simp add: handleOK_Panic)
        with eq Inr np st show ?thesis by simp
      qed
    qed
  qed
qed


theorem stat_error_panics_witness:
  "handleGoodRequest scenarioServer scenarioEnv indexSlashRequest = Panic"
proof -
  have a: "HasPrefix (URL indexSlashRequest) ''/''"
    by (simp add: indexSlashRequest_def HasPrefix_def)
  have r: "relative_location scenarioServer indexSlashRequest = Inr ''index.html/index.html''"
    by code_simp
  have p: "\<not> HasPrefix ''index.html/index.html'' ''..''"
    by (simp add: HasPrefix_def)
  have st: "Stat scenarioEnv (resolved_path scenarioServer indexSlashRequest) = Inl ErrOther"
    by code_simp
  from r p st have "\<exists>rel. relative_location scenarioServer indexSlashRequest = Inr rel \<and>
      \<not> HasPrefix rel ''..'' \<and>
      Stat scenarioEnv (resolved_path scenarioServer indexSlashRequest) = Inl ErrOther"
    by simp
  then show ?thesis by (simp only: stat_error_panics [OF a])
qed

subsection \<open>The header loop\<close>

lemma readHeaders_Nil: "queued br = [] \<Longrightarrow> readHeaders w br hs = (Inl (terminal br), br)"
  by (subst readHeaders.simps) (simp add: readLine_Nil)

lemma readHeaders_end: "queued br = [] # rest \<Longrightarrow> readHeaders w br hs = (Inr hs, br\<lparr>queued := rest\<rparr>)"
  by (subst readHeaders.simps) (simp add: readLine_Cons)

lemma readHeaders_invalid_line:
  "queued br = l # rest \<Longrightarrow> l \<noteq> [] \<Longrightarrow> \<not> Contains l (CHR '':'') \<Longrightarrow>
   readHeaders w br hs = (Inl (Errorf ''400: Invalid header''), br\<lparr>queued := rest\<rparr>)"
  by (subst readHeaders.simps) (simp add: readLine_Cons)

lemma readHeaders_store:
  "queued br = l # rest \<Longrightarrow> l \<noteq> [] \<Longrightarrow> Contains l (CHR '':'') \<Longrightarrow>
   readHeaders w br hs = readHeaders w (br\<lparr>queued := rest\<rparr>) (store_header w l hs)"
  by (subst readHeaders.simps)
     (simp add: readLine_Cons Let_def store_header_def header_key_def header_value_def)

lemma readHeaders_invalid:
  "queued br = ls \<Longrightarrow> \<exists>h \<in> set (header_block ls). \<not> Contains h (CHR '':'') \<Longrightarrow>
   \<exists>br'. readHeaders w br hs = (Inl (Errorf ''400: Invalid header''), br')"
proof (induction ls arbitrary: br hs)
  case Nil
  then show ?case by (simp add: header_block_def)
next
  case (Cons l rest)
  show ?case
  proof (cases "l = []")
    case True
    with Cons.prems show ?thesis by (simp add: header_block_def)
  next
    case ne: False
    show ?thesis
    proof (cases "Contains l (CHR '':'')")
      case False
      with Cons.prems(1) ne show ?thesis by (simp add: readHeaders_invalid_line)
    next
      case True
      with Cons.prems(2) ne have "\<exists>h \<in> set (header_block rest). \<not> Contains h (CHR '':'')"
        by (auto simp: header_block_def)
      from Cons.IH [OF _ this, of "br\<lparr>queued := rest\<rparr>" "store_header w l hs"]
      show ?thesis using readHeaders_store [OF Cons.prems(1) ne True] by simp
    qed
  qed
qed

lemma readHeaders_complete:
  "queued br = ls \<Longrightarrow> \<forall>h \<in> set (header_block ls). Contains h (CHR '':'') \<Longrightarrow> terminated ls \<Longrightarrow>
   readHeaders w br hs =
     (Inr (fold (store_header w) (header_block ls) hs), br\<lparr>queued := after_block ls\<rparr>)"
proof (induction ls arbitrary: br hs)
  case Nil
  then show ?case by (simp add: terminated_def)
next
  case (Cons l rest)
  show ?case
  proof (cases "l = []")
    case True
    with Cons.prems(1) show ?thesis
      by (simp add: readHeaders_end header_block_def after_block_def)
  next
    case ne: False
    with Cons.prems(2) have c: "Contains l (CHR '':'')"
      and r: "\<forall>h \<in> set (header_block rest). Contains h (CHR '':'')"
      by (auto simp: header_block_def)
    from Cons.prems(3) ne have t: "terminated rest" by (auto simp: terminated_def)
    have "readHeaders w (br\<lparr>queued := rest\<rparr>) (store_header w l hs) =
            (Inr (fold (store_header w) (header_block rest) (store_header w l hs)),
             br\<lparr>queued := rest\<rparr>\<lparr>queued := after_block rest\<rparr>)"
      by (rule Cons.IH [OF _ r t]) simp
    with ne show ?thesis
      using readHeaders_store [OF Cons.prems(1) ne c]
      by (simp add: header_block_def after_block_def)
  qed
qed

lemma readHeaders_cut:
  "queued br = ls \<Longrightarrow> \<forall>h \<in> set (header_block ls). Contains h (CHR '':'') \<Longrightarrow> \<not> terminated ls \<Longrightarrow>
   readHeaders w br hs = (Inl (terminal br), br\<lparr>queued := []\<rparr>)"
proof (induction ls arbitrary: br hs)
  case Nil
  then show ?case by (simp add: readHeaders_Nil)
next
  case (Cons l rest)
  from Cons.prems(3) have ne: "l \<noteq> []" and t: "\<not> terminated rest"
    by (auto simp: terminated_def)
  with Cons.prems(2) have c: "Contains l (CHR '':'')"
    and r: "\<forall>h \<in> set (header_block rest). Contains h (CHR '':'')"
    by (auto simp: header_block_def)
  have "readHeaders w (br\<lparr>queued := rest\<rparr>) (store_header w l hs) =
          (Inl (terminal (br\<lparr>queued := rest\<rparr>)), br\<lparr>queued := rest\<rparr>\<lparr>queued := []\<rparr>)"
    by (rule Cons.IH [OF _ r t]) simp
  then show ?case
    using readHeaders_store [OF Cons.prems(1) ne c] by simp
qed

lemma fold_store_lookup:
  "fmlookup (fold (store_header w) blk hs) k = None \<longleftrightarrow>
     k \<notin> set (map (header_key w) blk) \<and> fmlookup hs k = None"
  by (induction blk arbitrary: hs) (auto simp: store_header_def)


subsection \<open>The outcomes of the parser\<close>

lemma readRequest_Nil:
  "queued br = [] \<Longrightarrow> readRequest w br = Returned (None, True, Some (terminal br), br)"
  by (simp add: readRequest_def readLine_Nil)

lemma HasPrefix_slash: "HasPrefix u ''/'' \<longleftrightarrow> u \<noteq> [] \<and> hd u = CHR ''/''"
  by (cases u) (auto simp: HasPrefix_def)

lemma readRequest_bad_line:
  assumes "queued br = line # rest" and "spec_bad_request_line line" and "readRequest w br \<noteq> Panic"
  shows "\<exists>e. readRequest w br = Returned (None, False, Some e, br\<lparr>queued := rest\<rparr>) \<and> parse_failure e"
  using assms
  by (auto simp: readRequest_def readLine_Cons parseRequestLine_def Let_def
        spec_bad_request_line_def parse_failure_def HasPrefix_slash
        split: if_splits)

lemma readRequest_good_line:
  assumes "queued br = line # rest" and "\<not> spec_bad_request_line line"
  shows "readRequest w br =
     (case readHeaders w (br\<lparr>queued := rest\<rparr>) fmempty of
        (Inl err, br2) \<Rightarrow> Returned (None, False, Some err, br2)
      | (Inr hs, br2) \<Rightarrow>
          (case fmlookup hs ''Host'' of
             None \<Rightarrow> Returned (None, False, Some (Errorf ''400: Host Needed''), br2)
           | Some hostVal \<Rightarrow> Returned (Some (parsed_request line hs), False, None, br2)))"
  using assms
  by (auto simp: readRequest_def readLine_Cons parseRequestLine_def Let_def
        spec_bad_request_line_def HasPrefix_slash parsed_request_def zeroRequest_def
        split: prod.splits sum.splits option.splits)

lemma valid_parsed_request:
  "\<not> spec_bad_request_line line \<Longrightarrow> fmlookup hs ''Host'' = Some h \<Longrightarrow>
   valid_request (parsed_request line hs)"
  by (simp add: valid_request_def parsed_request_def spec_bad_request_line_def Let_def)

lemma read_not_parse: "read_failure e \<Longrightarrow> \<not> parse_failure e"
  by (auto simp: read_failure_def parse_failure_def)

text \<open>The three ways in which the parser returns.\<close>

lemma readRequest_class:
  assumes np: "readRequest w br \<noteq> Panic"
  shows "(spec_bad_request w (queued br) \<and>
            (\<exists>e br'. readRequest w br = Returned (None, False, Some e, br') \<and> parse_failure e)) \<or>
         (queued br \<noteq> [] \<and> \<not> spec_bad_request w (queued br) \<and> terminated (tl (queued br)) \<and>
            (\<exists>req br'. readRequest w br = Returned (Some req, False, None, br') \<and> valid_request req)) \<or>
         ((queued br = [] \<or> \<not> terminated (tl (queued br))) \<and> \<not> spec_bad_request w (queued br) \<and>
            (\<exists>f br'. readRequest w br = Returned (None, f, Some (terminal br), br')))"
proof (cases "queued br")
  case Nil
  then show ?thesis by (auto simp: readRequest_Nil spec_bad_request_def)
next
  case (Cons line rest)
  show ?thesis
  proof (cases "spec_bad_request_line line")
    case True
    from readRequest_bad_line [OF Cons True np] Cons True show ?thesis
      by (auto simp: spec_bad_request_def)
  next
    case ok: False
    note rr = readRequest_good_line [OF Cons ok, of w]
    let ?br = "br\<lparr>queued := rest\<rparr>"
    have q: "queued ?br = rest" by simp
    show ?thesis
    proof (cases "\<exists>h \<in> set (header_block rest). \<not> Contains h (CHR '':'')")
      case True
      from readHeaders_invalid [OF q True, of w fmempty] obtain br' where
        "readHeaders w ?br fmempty = (Inl (Errorf ''400: Invalid header''), br')" ..
      with rr have "readRequest w br = Returned (None, False, Some (Errorf ''400: Invalid header''), br')"
        by simp
      with True Cons show ?thesis by (auto simp: spec_bad_request_def parse_failure_def)
    next
      case False
      then have all: "\<forall>h \<in> set (header_block rest). Contains h (CHR '':'')" by simp
      show ?thesis
      proof (cases "terminated rest")
        case t: True
        note rh = readHeaders_complete [OF q all t, of w fmempty]
        let ?hs = "fold (store_header w) (header_block rest) fmempty"
        show ?thesis
        proof (cases "fmlookup ?hs ''Host''")
          case None
          with rr rh have "readRequest w br =
              Returned (None, False, Some (Errorf ''400: Host Needed''), ?br\<lparr>queued := after_block rest\<rparr>)"
            by simp
          moreover from None have "''Host'' \<notin> set (map (header_key w) (header_block rest))"
            by (simp add: fold_store_lookup)
          ultimately show ?thesis using Cons t
            by (auto simp: spec_bad_request_def parse_failure_def)
        next
          case (Some h)
          with rr rh have r: "readRequest w br =
              Returned (Some (parsed_request line ?hs), False, None, ?br\<lparr>queued := after_block rest\<rparr>)"
            by simp
          from Some have "''Host'' \<in> set (map (header_key w) (header_block rest))"
            using fold_store_lookup [of w "header_block rest" fmempty "''Host''"] by auto
          with r valid_parsed_request [OF ok Some] Cons t ok all show ?thesis
            by (auto simp: spec_bad_request_def)
        qed
      next
        case nt: False
        from readHeaders_cut [OF q all nt, of w fmempty] rr
        have "readRequest w br = Returned (None, False, Some (terminal br), ?br\<lparr>queued := []\<rparr>)"
          by simp
        with Cons nt ok all show ?thesis by (auto simp: spec_bad_request_def)
      qed
    qed
  qed
qed

text \<open>
  C5. The claim says that the parser fails exactly under the six listed conditions and
  then with a bad-request error. It also fails when a line cannot be read: the request
  line \<open>GET / HTTP/1.1\<close> followed by the end of the stream makes it return \<open>io.EOF\<close>,
  although none of the six conditions holds.
\<close>

theorem eof_is_not_bad_request:
  "readRequest scenarioEnv (NewReader (''GET / HTTP/1.1'' @ CRLF) EOF) =
     Returned (None, False, Some EOF, \<lparr>queued = [], terminal = EOF\<rparr>) \<and>
   \<not> parse_failure EOF \<and>
   \<not> spec_bad_request scenarioEnv (queued (NewReader (''GET / HTTP/1.1'' @ CRLF) EOF))"
  by code_simp


text \<open>
  C5, amended. Whenever the parser returns (it does not panic on an empty target) and
  the lines end in a read error: it fails with an error of its own exactly under the
  six conditions; it returns a request, which then satisfies all invariants, exactly
  when none of them holds and the empty line is there; and it fails with the read
  error exactly when none of them holds and no line or no empty line is there.
\<close>

theorem readRequest_outcomes:
  assumes np: "readRequest w br \<noteq> Panic" and rf: "read_failure (terminal br)"
  shows "(spec_bad_request w (queued br) \<longleftrightarrow>
            (\<exists>e br'. readRequest w br = Returned (None, False, Some e, br') \<and> parse_failure e)) \<and>
         (queued br \<noteq> [] \<and> \<not> spec_bad_request w (queued br) \<and> terminated (tl (queued br)) \<longleftrightarrow>
            (\<exists>req br'. readRequest w br = Returned (Some req, False, None, br') \<and> valid_request req)) \<and>
         ((queued br = [] \<or> \<not> terminated (tl (queued br))) \<and> \<not> spec_bad_request w (queued br) \<longleftrightarrow>
            (\<exists>f br'. readRequest w br = Returned (None, f, Some (terminal br), br')))"
  using readRequest_class [OF np] read_not_parse [OF rf]
  by (elim disjE conjE exE) auto

theorem readRequest_outcomes_witness:
  "\<exists>req br'. readRequest scenarioEnv
       (NewReader (''GET / HTTP/1.1'' @ CRLF @ ''Host: example.com'' @ CRLF @ CRLF) EOF) =
         Returned (Some req, False, None, br') \<and> valid_request req"
proof -
  let ?br = "NewReader (''GET / HTTP/1.1'' @ CRLF @ ''Host: example.com'' @ CRLF @ CRLF) EOF"
  have np: "readRequest scenarioEnv ?br \<noteq> Panic" by code_simp
  have rf: "read_failure (terminal ?br)" by code_simp
  have l: "queued ?br \<noteq> [] \<and> \<not> spec_bad_request scenarioEnv (queued ?br) \<and>
           terminated (tl (queued ?br))"
    by code_simp
  from readRequest_outcomes [OF np rf] l show ?thesis by blast
qed

subsection \<open>One turn of the connection loop\<close>

lemma Sprint_400: "Sprint 400 = ''400''"
  by code_simp

lemma handleBadRequest_fields:
  "StatusCode (handleBadRequest w req res) = 400"
  "StatusText (handleBadRequest w req res) = ''Bad Request''"
  "FilePath (handleBadRequest w req res) = []"
  "Response.Proto (handleBadRequest w req res) = ''HTTP/1.1''"
  "Response.Headers (handleBadRequest w req res) =
     fmupd ''Connection'' ''close'' (fmupd ''Date'' (FormatTime w (Now w)) fmempty)"
  by (auto simp: handleBadRequest_def init_def Let_def statusText_def statusOK_def
        statusBadRequest_def responseProto_def split: option.splits intro!: fmap_ext)

lemma bad_request_keys:
  "sorted_list_of_fset {|''Connection'', ''Date''|} = [''Connection'', ''Date'']"
  by (simp add: sorted_list_of_fset.rep_eq)

lemma Write_handleBadRequest:
  assumes "room conn = None"
  shows "Write w (handleBadRequest w req res) conn =
           (None, conn\<lparr>sent := sent conn @ bad_request_bytes w\<rparr>)"
  using assms
  by (simp add: Write_def writeStatusLine_def writeHeaders_def writeBody_def conn_Write_def
        handleBadRequest_fields bad_request_keys header_line_def Sprint_400 statusText_def
        statusOK_def statusBadRequest_def bad_request_bytes_def)

lemma serve_error:
  assumes "SetReadDeadline conn = (None, c1)"
    and "readRequest w (reader c1) = Returned (req, noReq, Some e, br)"
  shows "serve s w conn =
     (if e = EOF \<or> (e = Timeout \<and> noReq) then Done (conn_Close (c1\<lparr>reader := br\<rparr>))
      else Done (conn_Close (snd (Write w (handleBadRequest w req zeroResponse) (c1\<lparr>reader := br\<rparr>)))))"
  using assms by (simp add: serve_def Let_def split: prod.splits)

lemma serve_good:
  assumes "SetReadDeadline conn = (None, c1)"
    and "readRequest w (reader c1) = Returned (Some r, noReq, None, br)"
    and "handleGoodRequest s w r = Returned res"
  shows "serve s w conn =
     (if Close r then Done (conn_Close (snd (Write w res (c1\<lparr>reader := br\<rparr>))))
      else Again (snd (Write w res (c1\<lparr>reader := br\<rparr>))))"
  using assms by (simp add: serve_def Let_def split: prod.splits)

lemma serve_good_panic:
  assumes "SetReadDeadline conn = (None, c1)"
    and "readRequest w (reader c1) = Returned (Some r, noReq, None, br)"
    and "handleGoodRequest s w r = Panic"
  shows "serve s w conn = Crash"
  using assms by (simp add: serve_def Let_def split: prod.splits)

lemma SetReadDeadline_None:
  "SetReadDeadline conn = (None, c1) \<Longrightarrow>
   reader c1 = reader conn \<and> sent c1 = sent conn \<and> room c1 = room conn \<and> closed c1 = closed conn"
  by (auto simp: SetReadDeadline_def split: list.splits if_splits)

lemma readRequest_cut:
  assumes "queued br = line # rest" and "\<not> spec_bad_request w (queued br)" and "\<not> terminated rest"
  shows "readRequest w br = Returned (None, False, Some (terminal br), br\<lparr>queued := []\<rparr>)"
proof -
  from assms(1,2) have ok: "\<not> spec_bad_request_line line"
    and all: "\<forall>h \<in> set (header_block rest). Contains h (CHR '':'')"
    by (auto simp: spec_bad_request_def)
  have q: "queued (br\<lparr>queued := rest\<rparr>) = rest" by simp
  from readHeaders_cut [OF q all assms(3), of w fmempty] readRequest_good_line [OF assms(1) ok, of w]
  show ?thesis by simp
qed

lemma readRequest_error_None:
  "readRequest w br = Returned (req, f, Some e, br') \<Longrightarrow> req = None"
  by (auto simp: readRequest_def Let_def
        split: prod.splits option.splits if_splits sum.splits)

subsection \<open>Bad requests\<close>

text \<open>
  Whenever the parser returns an error of its own, the handler builds the response of
  \<open>handleBadRequest\<close>, writes it and closes the connection. That response has status 400,
  its reason phrase on the wire is \<open>Bad Request\<close>, its headers hold \<open>Connection: close\<close>
  whatever the request was, and it has no file to serve. On a connection that accepts
  the write, exactly the status line, the two headers \<open>Connection\<close> and \<open>Date\<close> and the
  empty line are sent: so for the request line \<open>GET /\<close>, which lacks the version.
\<close>

lemma bad_request_gets_400:
  fixes s w conn req
  defines "res \<equiv> handleBadRequest w req zeroResponse"
  assumes "SetReadDeadline conn = (None, c1)"
    and "readRequest w (reader c1) = Returned (req, noReq, Some e, br)"
    and "parse_failure e"
  shows "(\<exists>conn'. serve s w conn = Done conn' \<and> closed conn' \<and>
            conn' = conn_Close (snd (Write w res (c1\<lparr>reader := br\<rparr>))) \<and>
            (room conn = None \<longrightarrow> sent conn' = sent conn @ bad_request_bytes w)) \<and>
         StatusCode res = 400 \<and> statusText (StatusCode res) = ''Bad Request'' \<and>
         fmlookup (Response.Headers res) ''Connection'' = Some ''close'' \<and>
         FilePath res = []"
proof -
  from assms(4) have ne: "e \<noteq> EOF" "e \<noteq> Timeout" by (auto simp: parse_failure_def)
  from serve_error [OF assms(2,3), of s] ne
  have sv: "serve s w conn = Done (conn_Close (snd (Write w res (c1\<lparr>reader := br\<rparr>))))"
    by (simp add: res_def)
  have cl: "closed (conn_Close (snd (Write w res (c1\<lparr>reader := br\<rparr>))))"
    by (simp add: conn_Close_def)
  have bytes: "sent (conn_Close (snd (Write w res (c1\<lparr>reader := br\<rparr>)))) = sent conn @ bad_request_bytes w"
    if "room conn = None"
  proof -
    from SetReadDeadline_None [OF assms(2)] that
    have "room (c1\<lparr>reader := br\<rparr>) = None" and "sent (c1\<lparr>reader := br\<rparr>) = sent conn" by simp_all
    then show ?thesis
      by (simp add: res_def Write_handleBadRequest conn_Close_def)
  qed
  show ?thesis
    using sv cl bytes
    by (simp add: res_def handleBadRequest_fields statusText_def statusOK_def statusBadRequest_def)
qed

lemma bad_request_gets_400_example:
  "\<exists>conn'. serve scenarioServer scenarioEnv (newConn (''GET /'' @ CRLF) EOF) = Done conn' \<and>
      closed conn' \<and> sent conn' = bad_request_bytes scenarioEnv"
proof -
  let ?c = "newConn (''GET /'' @ CRLF) EOF"
  have a: "SetReadDeadline ?c = (None, ?c)"
    by (simp add: SetReadDeadline_def newConn_def)
  have b: "readRequest scenarioEnv (reader ?c) =
             Returned (None, False, Some (RequestLineError [''GET'', ''/'']), \<lparr>queued = [], terminal = EOF\<rparr>)"
    by code_simp
  have c: "parse_failure (RequestLineError [''GET'', ''/''])"
    by (simp add: parse_failure_def)
  have d: "room ?c = None" "sent ?c = []" by (simp_all add: newConn_def)
  from bad_request_gets_400 [OF a b c, of scenarioServer] d show ?thesis by auto
qed

text \<open>
  C6. The claim says that every malformed request is answered with 400 and
  \<open>Connection: close\<close> before the stream is closed. The request whose request line is
  \<open>GET  HTTP/1.1\<close>, with an empty target, is malformed, and the parser panics on it
  instead of returning an error: no response is written and the handler does not close
  the stream.
\<close>

theorem malformed_request_crashes_handler:
  "handleClientConnections scenarioServer scenarioEnv
     (newConn (''GET  HTTP/1.1'' @ CRLF @ ''Host: example.com'' @ CRLF @ CRLF) EOF) = Panic"
  by code_simp

subsection \<open>End of stream\<close>

text \<open>
  C2. The claim says that the handler answers 400 when the stream ends after part of a
  request has been read. The handler closes without writing whenever the error is
  \<open>io.EOF\<close>, before it looks at the flag: after the request line and a \<open>Host\<close> header,
  with the empty line still missing, nothing is sent.
\<close>

theorem eof_mid_request_closes_silently:
  "handleClientConnections scenarioServer scenarioEnv
     (newConn (''GET / HTTP/1.1'' @ CRLF @ ''Host: example.com'' @ CRLF) EOF) =
   Returned \<lparr>reader = \<lparr>queued = [], terminal = EOF\<rparr>, sent = [], room = None,
             deadlineErrs = [], closed = True\<rparr>"
  by code_simp

text \<open>
  C2, amended. Let the stream end before the empty line, and let the lines be those that
  \<open>ReadLine\<close> returns, a last line that the end of the stream cuts short included. When
  there is no line, or the request line is well formed and every header line holds a
  colon, the handler closes the connection and writes nothing; the parser's flag is true
  exactly when there is no line, and the handler does not look at it. When one of the
  lines is malformed and the parser returns, the handler answers 400 (on a connection
  that accepts the write) and closes.
\<close>

theorem eof_before_empty_line:
  assumes "SetReadDeadline conn = (None, c1)"
    and "reader conn = NewReader bytes EOF"
    and "\<not> terminated (tl (ReadLines bytes))"
  shows "(\<not> spec_bad_request w (ReadLines bytes) \<longrightarrow>
            (\<exists>conn' flag br. serve s w conn = Done conn' \<and> closed conn' \<and> sent conn' = sent conn \<and>
               readRequest w (reader conn) = Returned (None, flag, Some EOF, br) \<and>
               (flag \<longleftrightarrow> ReadLines bytes = []))) \<and>
         (spec_bad_request w (ReadLines bytes) \<and> readRequest w (reader conn) \<noteq> Panic \<and>
          room conn = None \<longrightarrow>
            (\<exists>conn'. serve s w conn = Done conn' \<and> closed conn' \<and>
               sent conn' = sent conn @ bad_request_bytes w))"
proof -
  note c1 = SetReadDeadline_None [OF assms(1)]
  from assms(2) have q: "queued (reader conn) = ReadLines bytes"
    and t: "terminal (reader conn) = EOF"
    by (simp_all add: NewReader_def)
  have silent: "\<exists>conn' flag br. serve s w conn = Done conn' \<and> closed conn' \<and> sent conn' = sent conn \<and>
               readRequest w (reader conn) = Returned (None, flag, Some EOF, br) \<and>
               (flag \<longleftrightarrow> ReadLines bytes = [])"
    if ok: "\<not> spec_bad_request w (ReadLines bytes)"
  proof -
    have "\<exists>flag br. readRequest w (reader conn) = Returned (None, flag, Some EOF, br) \<and>
                     (flag \<longleftrightarrow> ReadLines bytes = [])"
    proof (cases "ReadLines bytes")
      case Nil
      with q t show ?thesis by (auto simp: readRequest_Nil)
    next
      case (Cons line rest)
      with q have ql: "queued (reader conn) = line # rest" by simp
      from ok q have nb: "\<not> spec_bad_request w (queued (reader conn))" by simp
      from assms(3) Cons have nt: "\<not> terminated rest" by simp
      from readRequest_cut [OF ql nb nt] t Cons show ?thesis by auto
    qed
    then obtain flag br where rr: "readRequest w (reader conn) = Returned (None, flag, Some EOF, br)"
      and fl: "flag \<longleftrightarrow> ReadLines bytes = []" by blast
    from rr c1 have "readRequest w (reader c1) = Returned (None, flag, Some EOF, br)" by simp
    from serve_error [OF assms(1) this, of s] c1
    have "serve s w conn = Done (conn_Close (c1\<lparr>reader := br\<rparr>))"
      and "closed (conn_Close (c1\<lparr>reader := br\<rparr>))"
      and "sent (conn_Close (c1\<lparr>reader := br\<rparr>)) = sent conn"
      by (simp_all add: conn_Close_def)
    with rr fl show ?thesis by blast
  qed
  have answered: "\<exists>conn'. serve s w conn = Done conn' \<and> closed conn' \<and>
               sent conn' = sent conn @ bad_request_bytes w"
    if bad: "spec_bad_request w (ReadLines bytes)" and np: "readRequest w (reader conn) \<noteq> Panic"
      and rm: "room conn = None"
  proof -
    from readRequest_class [OF np] bad q obtain e br where
      rr: "readRequest w (reader conn) = Returned (None, False, Some e, br)" and pf: "parse_failure e"
      by auto
    from pf have ne: "e \<noteq> EOF" "e \<noteq> Timeout" by (auto simp: parse_failure_def)
    from rr c1 have "readRequest w (reader c1) = Returned (None, False, Some e, br)" by simp
    from serve_error [OF assms(1) this, of s] ne
    have "serve s w conn =
            Done (conn_Close (snd (Write w (handleBadRequest w None zeroResponse) (c1\<lparr>reader := br\<rparr>))))"
      by simp
    moreover from c1 rm have "room (c1\<lparr>reader := br\<rparr>) = None" "sent (c1\<lparr>reader := br\<rparr>) = sent conn"
      by simp_all
    ultimately show ?thesis
      by (simp add: Write_handleBadRequest conn_Close_def)
  qed
  from silent answered show ?thesis by blast
qed

theorem eof_before_empty_line_witness:
  "(\<exists>conn'. serve scenarioServer scenarioEnv
       (newConn (''GET / HTTP/1.1'' @ CRLF @ ''Host: example.com'' @ CRLF) EOF) = Done conn' \<and>
       closed conn' \<and> sent conn' = []) \<and>
   (\<exists>conn'. serve scenarioServer scenarioEnv
       (newConn (''GET / HTTP/1.1'' @ CRLF @ ''Hos'') EOF) = Done conn' \<and>
       closed conn' \<and> sent conn' = bad_request_bytes scenarioEnv)"
proof -
  let ?b1 = "''GET / HTTP/1.1'' @ CRLF @ ''Host: example.com'' @ CRLF"
  let ?b2 = "''GET / HTTP/1.1'' @ CRLF @ ''Hos''"
  have a1: "SetReadDeadline (newConn ?b1 EOF) = (None, newConn ?b1 EOF)"
    by (simp add: SetReadDeadline_def newConn_def)
  have a2: "SetReadDeadline (newConn ?b2 EOF) = (None, newConn ?b2 EOF)"
    by (simp add: SetReadDeadline_def newConn_def)
  have r1: "reader (newConn ?b1 EOF) = NewReader ?b1 EOF" by (simp add: newConn_def)
  have r2: "reader (newConn ?b2 EOF) = NewReader ?b2 EOF" by (simp add: newConn_def)
  have t1: "\<not> terminated (tl (ReadLines ?b1))" by code_simp
  have t2: "\<not> terminated (tl (ReadLines ?b2))" by code_simp
  have g1: "\<not> spec_bad_request scenarioEnv (ReadLines ?b1)" by code_simp
  have g2: "spec_bad_request scenarioEnv (ReadLines ?b2)" by code_simp
  have np: "readRequest scenarioEnv (reader (newConn ?b2 EOF)) \<noteq> Panic" by code_simp
  have d: "sent (newConn ?b1 EOF) = []" "sent (newConn ?b2 EOF) = []" "room (newConn ?b2 EOF) = None"
    by (simp_all add: newConn_def)
  from eof_before_empty_line [OF a1 r1 t1, of scenarioEnv scenarioServer] g1 d(1)
  have "\<exists>conn'. serve scenarioServer scenarioEnv (newConn ?b1 EOF) = Done conn' \<and>
       closed conn' \<and> sent conn' = []"
    by auto
  moreover from eof_before_empty_line [OF a2 r2 t2, of scenarioEnv scenarioServer] g2 np d(2,3)
  have "\<exists>conn'. serve scenarioServer scenarioEnv (newConn ?b2 EOF) = Done conn' \<and>
       closed conn' \<and> sent conn' = bad_request_bytes scenarioEnv"
    by auto
  ultimately show ?thesis by blast
qed

subsection \<open>Read deadline\<close>

text \<open>
  When the deadline passes before any byte of a request has arrived, the handler closes
  without writing. When it passes after at least one line (complete or cut short) and
  before the empty line, the handler sends the response to a bad request and closes,
  unless the parser panics.
\<close>

lemma timeout_nothing_read:
  assumes "SetReadDeadline conn = (None, c1)"
    and "terminal (reader conn) = Timeout"
    and "queued (reader conn) = []"
  shows "\<exists>conn'. serve s w conn = Done conn' \<and> closed conn' \<and> sent conn' = sent conn"
proof -
  note c1 = SetReadDeadline_None [OF assms(1)]
  from assms(2,3) c1 have "readRequest w (reader c1) = Returned (None, True, Some Timeout, reader c1)"
    by (simp add: readRequest_Nil)
  from serve_error [OF assms(1) this, of s] c1 show ?thesis
    by (simp add: conn_Close_def)
qed

lemma timeout_partial_request:
  assumes "SetReadDeadline conn = (None, c1)"
    and "terminal (reader conn) = Timeout"
    and "queued (reader conn) = line # rest"
    and "\<not> terminated rest"
    and "readRequest w (reader conn) \<noteq> Panic"
    and "room conn = None"
  shows "\<exists>conn'. serve s w conn = Done conn' \<and> closed conn' \<and>
           sent conn' = sent conn @ bad_request_bytes w"
proof -
  note c1 = SetReadDeadline_None [OF assms(1)]
  have "\<exists>req e br. readRequest w (reader conn) = Returned (req, False, Some e, br) \<and> e \<noteq> EOF"
  proof (cases "spec_bad_request w (queued (reader conn))")
    case True
    from readRequest_class [OF assms(5)] True obtain e br' where
      "readRequest w (reader conn) = Returned (None, False, Some e, br')" "parse_failure e"
      by auto
    then show ?thesis by (auto simp: parse_failure_def)
  next
    case False
    from readRequest_cut [OF assms(3) False assms(4)] assms(2) show ?thesis by auto
  qed
  then obtain req e br where rr: "readRequest w (reader c1) = Returned (req, False, Some e, br)"
    and ne: "e \<noteq> EOF" using c1 by auto
  from serve_error [OF assms(1) rr, of s] ne
  have "serve s w conn = Done (conn_Close (snd (Write w (handleBadRequest w req zeroResponse) (c1\<lparr>reader := br\<rparr>))))"
    by simp
  moreover from c1 assms(6) have "room (c1\<lparr>reader := br\<rparr>) = None" "sent (c1\<lparr>reader := br\<rparr>) = sent conn"
    by simp_all
  ultimately show ?thesis
    by (simp add: Write_handleBadRequest conn_Close_def)
qed

text \<open>The first call of \<open>ReadLine\<close> returns the error only when no byte has arrived.\<close>

lemma ReadLines_eq_Nil: "ReadLines bs = [] \<longleftrightarrow> bs = []"
  by (subst ReadLines.simps) (simp add: Let_def)

text \<open>
  C3. The claim says that the handler answers 400 when the deadline passes while a
  request is in progress, a partly received request line included. When the bytes
  \<open>GET  HTTP/1.1\<close> (two spaces) have arrived and the deadline passes before the line
  ends, \<open>ReadLine\<close> hands them to the parser as a line, and the parser panics on the empty
  target: no response is written.
\<close>

theorem timeout_with_empty_target_panics:
  "handleClientConnections scenarioServer scenarioEnv (newConn ''GET  HTTP/1.1'' Timeout) = Panic"
  by code_simp

subsection \<open>Keep-alive and close\<close>

text \<open>
  For a request that the parser accepts and for which the resolver returns a response:
  the close flag is set exactly when the stored \<open>Connection\<close> value is \<open>close\<close>; without it
  the handler writes the response and goes round the loop again; with it the response
  carries \<open>Connection: close\<close> and the handler closes after writing.
\<close>

lemma readRequest_Close:
  assumes "readRequest w br = Returned (Some r, f, None, br')"
  shows "Close r \<longleftrightarrow> fmlookup (Request.Headers r) ''Connection'' = Some ''close''"
proof (cases "queued br")
  case Nil
  with assms show ?thesis by (simp add: readRequest_Nil)
next
  case (Cons line rest)
  show ?thesis
  proof (cases "spec_bad_request_line line")
    case True
    from assms have "readRequest w br \<noteq> Panic" by simp
    from readRequest_bad_line [OF Cons True this] assms show ?thesis by auto
  next
    case False
    from readRequest_good_line [OF Cons False, of w] assms show ?thesis
      by (auto simp: parsed_request_def split: prod.splits sum.splits option.splits)
  qed
qed

lemma init_Connection:
  "Close r \<Longrightarrow> fmlookup (Response.Headers (init w (Some r) res)) ''Connection'' = Some ''close''"
  by (simp add: init_def Let_def)

lemma handleNotFound_Connection:
  "Close r \<Longrightarrow> fmlookup (Response.Headers (handleNotFound w (Some r) res)) ''Connection'' = Some ''close''"
  by (simp add: handleNotFound_def Let_def init_Connection)

lemma handleOK_Connection:
  "Close r \<Longrightarrow> handleOK w (Some r) res0 = Returned res \<Longrightarrow>
   fmlookup (Response.Headers res) ''Connection'' = Some ''close''"
  by (auto simp: handleOK_def Let_def init_Connection split: sum.splits)

lemma handleGoodRequest_Connection:
  assumes "handleGoodRequest s w r = Returned res" and "Close r"
  shows "fmlookup (Response.Headers res) ''Connection'' = Some ''close''"
proof -
  from assms(1) have ne: "URL r \<noteq> []" by (auto simp: handleGoodRequest_def)
  let ?r = "r\<lparr>URL := resolved_URL r\<rparr>"
  from assms(2) have cl: "Close ?r" by simp
  from assms(1) have "res = handleNotFound w (Some ?r) zeroResponse \<or>
      handleOK w (Some ?r) (zeroResponse\<lparr>FilePath := resolved_path s r\<rparr>) = Returned res"
    by (auto simp: handleGoodRequest_eq [OF ne] split: sum.splits stat_error.splits if_splits)
  then show ?thesis
    using handleNotFound_Connection [OF cl] handleOK_Connection [OF cl] by auto
qed

lemma keep_alive_or_close:
  assumes "SetReadDeadline conn = (None, c1)"
    and "readRequest w (reader c1) = Returned (Some r, noReq, None, br)"
    and "handleGoodRequest s w r = Returned res"
  shows "fmlookup (Request.Headers r) ''Connection'' \<noteq> Some ''close'' \<Longrightarrow>
           serve s w conn = Again (snd (Write w res (c1\<lparr>reader := br\<rparr>)))"
    and "fmlookup (Request.Headers r) ''Connection'' = Some ''close'' \<Longrightarrow>
           fmlookup (Response.Headers res) ''Connection'' = Some ''close'' \<and>
           serve s w conn = Done (conn_Close (snd (Write w res (c1\<lparr>reader := br\<rparr>))))"
  using serve_good [OF assms] readRequest_Close [OF assms(2)]
    handleGoodRequest_Connection [OF assms(3)]
  by auto

text \<open>
  C7. The claim says that after every fully valid request the handler either reads the
  next request or, for \<open>Connection: close\<close>, closes after writing the response. The
  valid request for \<open>/index.html/\<close> makes the resolver panic (see C10): the handler
  neither writes a response nor goes on.
\<close>

theorem valid_request_crashes_handler:
  "handleClientConnections scenarioServer scenarioEnv
     (newConn (''GET /index.html/ HTTP/1.1'' @ CRLF @ ''Host: example.com'' @ CRLF @ CRLF) EOF) = Panic"
  by code_simp

subsection \<open>The response writer\<close>

lemma take_line_CRLF:
  "CR \<notin> set l \<Longrightarrow> take_line (l @ CRLF @ rest) = Some (l, rest)"
proof (induction l)
  case Nil
  show ?case by (simp add: CRLF_def)
next
  case (Cons c l)
  then have c: "c \<noteq> CR" and ih: "take_line (l @ CRLF @ rest) = Some (l, rest)" by auto
  obtain d cs where dc: "l @ CRLF @ rest = d # cs"
    by (cases "l @ CRLF @ rest") (simp_all add: CRLF_def)
  from ih have "take_line (d # cs) = Some (l, rest)" by (simp only: dc)
  with c have "take_line (c # d # cs) = Some (c # l, rest)" by simp
  then show ?case by (simp only: dc append_Cons)
qed

lemma digit_val_digit: "d < 10 \<Longrightarrow> digit_val (digit d) = Some d"
proof -
  assume "d < 10"
  then have "d \<in> {0, 1, 2, 3, 4, 5, 6, 7, 8, 9}" by auto
  then show ?thesis by (auto simp: digit_val_def digit_def)
qed

lemma digit_in: "d < 10 \<Longrightarrow> digit d \<in> set ''0123456789''"
proof -
  assume "d < 10"
  then have "d \<in> {0, 1, 2, 3, 4, 5, 6, 7, 8, 9}" by auto
  then show ?thesis by (auto simp: digit_def)
qed

lemma parse_digits_append:
  "parse_digits (xs @ ys) acc =
     (case parse_digits xs acc of None \<Rightarrow> None | Some a \<Rightarrow> parse_digits ys a)"
  by (induction xs arbitrary: acc) (auto split: option.splits)

lemma parse_digits_show_nat: "parse_digits (show_nat n) 0 = Some n"
proof (induction n rule: show_nat.induct)
  case (1 n)
  show ?case
  proof (cases "n < 10")
    case True
    then show ?thesis by (subst show_nat.simps) (simp add: digit_val_digit)
  next
    case False
    with "1.IH" have ih: "parse_digits (show_nat (n div 10)) 0 = Some (n div 10)" by simp
    have "n mod 10 < 10" by simp
    then have d: "digit_val (digit (n mod 10)) = Some (n mod 10)" by (rule digit_val_digit)
    from False show ?thesis
      by (subst show_nat.simps) (simp add: parse_digits_append ih d)
  qed
qed

lemma show_nat_digits: "set (show_nat n) \<subseteq> set ''0123456789''"
proof (induction n rule: show_nat.induct)
  case (1 n)
  show ?case
  proof (cases "n < 10")
    case True
    then show ?thesis using digit_in [of n] by (subst show_nat.simps) simp
  next
    case False
    with "1.IH" have "set (show_nat (n div 10)) \<subseteq> set ''0123456789''" by simp
    moreover have "digit (n mod 10) \<in> set ''0123456789''" by (rule digit_in) simp
    ultimately show ?thesis using False by (subst show_nat.simps) simp
  qed
qed

lemma show_nat_nonempty: "show_nat n \<noteq> []"
  by (subst show_nat.simps) simp

lemma parse_nat_show_nat: "parse_nat (show_nat n) = Some n"
  by (simp add: parse_nat_def show_nat_nonempty parse_digits_show_nat)

lemma parse_int_Sprint: "parse_int (Sprint i) = Some i"
proof (cases "i < 0")
  case True
  then show ?thesis by (simp add: parse_int_def Sprint_def parse_nat_show_nat)
next
  case False
  obtain c cs where sn: "show_nat (nat i) = c # cs"
    using show_nat_nonempty [of "nat i"] by (cases "show_nat (nat i)") auto
  have "c \<in> set ''0123456789''" using show_nat_digits [of "nat i"] sn by auto
  then have "c \<noteq> CHR ''-''" by auto
  with False sn parse_nat_show_nat [of "nat i"] show ?thesis
    by (simp add: parse_int_def Sprint_def)
qed

lemma Sprint_no_space: "CHR '' '' \<notin> set (Sprint i)"
proof -
  have "CHR '' '' \<notin> set (show_nat n)" for n
  proof
    assume "CHR '' '' \<in> set (show_nat n)"
    with show_nat_digits [of n] have "CHR '' '' \<in> set ''0123456789''" by (rule subsetD)
    then show False by simp
  qed
  then show ?thesis by (simp add: Sprint_def)
qed

lemma takeWhile_sep: "c \<notin> set v \<Longrightarrow> takeWhile (\<lambda>x. x \<noteq> c) (v @ c # r) = v"
  by (induction v) auto

lemma dropWhile_sep: "c \<notin> set v \<Longrightarrow> dropWhile (\<lambda>x. x \<noteq> c) (v @ c # r) = c # r"
  by (induction v) auto

lemma SplitN_three:
  assumes "CHR '' '' \<notin> set v" and "CHR '' '' \<notin> set c"
  shows "SplitN (v @ '' '' @ c @ '' '' @ r) (CHR '' '') 3 = [v, c, r]"
proof -
  have "SplitN (v @ CHR '' '' # c @ CHR '' '' # r) (CHR '' '') (Suc (Suc (Suc 0))) = [v, c, r]"
    by (simp add: takeWhile_sep [OF assms(1)] dropWhile_sep [OF assms(1)]
          takeWhile_sep [OF assms(2)] dropWhile_sep [OF assms(2)])
  then show ?thesis by (simp add: numeral_3_eq_3)
qed

lemma parse_status_line_wire:
  assumes "CHR '' '' \<notin> set v"
  shows "parse_status_line (v @ '' '' @ Sprint i @ '' '' @ r) = Some (v, i, r)"
  using SplitN_three [OF assms Sprint_no_space, of i r]
  by (simp add: parse_status_line_def parse_int_Sprint)

lemma parse_header_block_end: "parse_header_block (CRLF @ body) hs = Some hs"
  using take_line_CRLF [of "[]" body]
  by (subst parse_header_block.simps) simp

lemma parse_header_block_line:
  assumes "CHR '':'' \<notin> set k" and "\<not> HasPrefix v '' ''"
    and "CR \<notin> set k" and "CR \<notin> set v"
  shows "parse_header_block ((k @ '': '' @ v @ CRLF) @ rest) hs =
         parse_header_block rest (fmupd k v hs)"
proof -
  let ?l = "k @ '': '' @ v"
  have cr: "CR \<notin> set ?l" using assms(3,4) by (simp add: CR_def)
  have tl: "take_line ((k @ '': '' @ v @ CRLF) @ rest) = Some (?l, rest)"
    using take_line_CRLF [OF cr, of rest] by simp
  have ne: "?l \<noteq> []" by simp
  have col: "CHR '':'' \<in> set ?l" by simp
  have key: "takeWhile (\<lambda>x. x \<noteq> CHR '':'') ?l = k"
    using takeWhile_sep [OF assms(1), of "'' '' @ v"] by simp
  have "dropWhile (\<lambda>x. x \<noteq> CHR '':'') ?l = CHR '':'' # '' '' @ v"
    using dropWhile_sep [OF assms(1), of "'' '' @ v"] by simp
  moreover have "dropWhile (\<lambda>x. x = CHR '' '') v = v"
    using assms(2) by (cases v) (auto simp: HasPrefix_def)
  ultimately have val: "dropWhile (\<lambda>x. x = CHR '' '') (tl (dropWhile (\<lambda>x. x \<noteq> CHR '':'') ?l)) = v"
    by simp
  show ?thesis
    by (subst parse_header_block.simps) (simp only: tl option.case prod.case ne col key val if_False not_True_eq_False not_not)
qed

lemma parse_header_block_fold:
  assumes "\<forall>k \<in> set ks. CHR '':'' \<notin> set k \<and> \<not> HasPrefix (val k) '' '' \<and> CR \<notin> set k \<and> CR \<notin> set (val k)"
  shows "parse_header_block (concat (map (\<lambda>k. k @ '': '' @ val k @ CRLF) ks) @ CRLF @ body) hs =
         Some (fold (\<lambda>k. fmupd k (val k)) ks hs)"
  using assms
proof (induction ks arbitrary: hs)
  case Nil
  show ?case by (simp add: parse_header_block_end)
next
  case (Cons k ks)
  then have k: "CHR '':'' \<notin> set k" "\<not> HasPrefix (val k) '' ''" "CR \<notin> set k" "CR \<notin> set (val k)"
    and rest: "\<forall>k \<in> set ks. CHR '':'' \<notin> set k \<and> \<not> HasPrefix (val k) '' '' \<and> CR \<notin> set k \<and> CR \<notin> set (val k)"
    by simp_all
  have "parse_header_block ((k @ '': '' @ val k @ CRLF) @
            (concat (map (\<lambda>k. k @ '': '' @ val k @ CRLF) ks) @ CRLF @ body)) hs =
        parse_header_block (concat (map (\<lambda>k. k @ '': '' @ val k @ CRLF) ks) @ CRLF @ body)
            (fmupd k (val k) hs)"
    by (rule parse_header_block_line [OF k])
  also have "\<dots> = Some (fold (\<lambda>k. fmupd k (val k)) ks (fmupd k (val k) hs))"
    by (rule Cons.IH [OF rest])
  finally show ?case by simp
qed

lemma fold_fmupd_lookup:
  "fmlookup (fold (\<lambda>k. fmupd k (val k)) ks hs) x =
     (if x \<in> set ks then Some (val x) else fmlookup hs x)"
  by (induction ks arbitrary: hs) auto

lemma fold_fmupd_dom:
  assumes "set ks = fset (fmdom h)"
  shows "fold (\<lambda>k. fmupd k (the (fmlookup h k))) ks fmempty = h"
proof (rule fmap_ext)
  fix x
  show "fmlookup (fold (\<lambda>k. fmupd k (the (fmlookup h k))) ks fmempty) x = fmlookup h x"
  proof (cases "fmlookup h x")
    case None
    then have "x \<notin> set ks" using assms by (simp add: fmlookup_dom_iff)
    with None show ?thesis by (simp add: fold_fmupd_lookup)
  next
    case (Some v)
    then have "x \<in> set ks" using assms by (simp add: fmlookup_dom_iff)
    with Some show ?thesis by (simp add: fold_fmupd_lookup)
  qed
qed

lemma sorted_keys:
  "sorted (sorted_list_of_fset S)" "distinct (sorted_list_of_fset S)"
  by (simp_all add: sorted_list_of_fset.rep_eq)

lemma statusText_no_CR: "CR \<notin> set (statusText code)"
  by (simp add: statusText_def CR_def)

lemma Sprint_no_CR: "CR \<notin> set (Sprint i)"
proof -
  have "CR \<notin> set (show_nat n)" for n
  proof
    assume "CR \<in> set (show_nat n)"
    with show_nat_digits [of n] have "CR \<in> set ''0123456789''" by (rule subsetD)
    then show False by (simp add: CR_def)
  qed
  then show ?thesis by (simp add: Sprint_def CR_def)
qed

lemma conn_Write_room:
  "room conn = None \<Longrightarrow> conn_Write bs conn = (None, conn\<lparr>sent := sent conn @ bs\<rparr>)"
  by (simp add: conn_Write_def)

lemma writeBody_sent:
  assumes "room conn = None"
  shows "\<exists>body. sent (snd (writeBody w res conn)) = sent conn @ body"
proof (cases "FilePath res = []")
  case True
  then show ?thesis by (simp add: writeBody_def)
next
  case ne: False
  show ?thesis
  proof (cases "Open w (FilePath res)")
    case None
    with ne show ?thesis by (simp add: writeBody_def)
  next
    case (Some f)
    with ne assms show ?thesis
      by (cases f) (simp_all add: writeBody_def conn_Write_room)
  qed
qed

text \<open>A file that opens and cannot be read makes \<open>writeBody\<close>, and so \<open>Write\<close>, return the
  error.\<close>

lemma writeBody_read_failure:
  assumes "FilePath res \<noteq> []" and "Open w (FilePath res) = Some (ReadFails bytes)"
    and "room conn = None"
  shows "writeBody w res conn = (Some ReadFailure, conn\<lparr>sent := sent conn @ bytes\<rparr>)"
  using assms by (simp add: writeBody_def conn_Write_room)

text \<open>On a connection that accepts the write, the status line, the header lines in the
  order of the sorted keys and the empty line are sent, whatever becomes of the body.\<close>

lemma Write_head:
  assumes "room conn = None"
  shows "\<exists>body. sent (snd (Write w res conn)) =
     sent conn @ wire_status_line res @
     concat (map (wire_header res) (sorted_list_of_fset (fmdom (Response.Headers res)))) @
     CRLF @ body"
proof -
  let ?ks = "sorted_list_of_fset (fmdom (Response.Headers res))"
  have "header_line res k = wire_header res k" if "k \<in> set ?ks" for k
  proof -
    from that have "fmlookup (Response.Headers res) k \<noteq> None" by (simp add: fmlookup_dom_iff)
    then show ?thesis by (auto simp: header_line_def wire_header_def)
  qed
  then have m: "map (header_line res) ?ks = map (wire_header res) ?ks"
    by (simp cong: map_cong)
  let ?c1 = "conn\<lparr>sent := sent conn @ wire_status_line res\<rparr>"
  let ?c2 = "?c1\<lparr>sent := sent ?c1 @ concat (map (wire_header res) ?ks) @ CRLF\<rparr>"
  have s1: "writeStatusLine res conn = (None, ?c1)"
    using assms by (simp add: writeStatusLine_def wire_status_line_def conn_Write_room)
  have "room ?c1 = None" using assms by simp
  then have s2: "writeHeaders res ?c1 = (None, ?c2)"
    by (simp add: writeHeaders_def m conn_Write_room)
  have "room ?c2 = None" using assms by simp
  from writeBody_sent [OF this, of w res] obtain body where
    b: "sent (snd (writeBody w res ?c2)) = sent ?c2 @ body" ..
  obtain e3 c3 where s3: "writeBody w res ?c2 = (e3, c3)" by (metis prod.exhaust)
  from b s3 have "sent c3 = sent ?c2 @ body" by simp
  moreover have "snd (Write w res conn) = c3"
    using s1 s2 s3 by (cases e3) (simp_all add: Write_def)
  ultimately have "sent (snd (Write w res conn)) =
      sent conn @ wire_status_line res @ concat (map (wire_header res) ?ks) @ CRLF @ body"
    by simp
  then show ?thesis ..
qed

text \<open>
  C8. The claim says that every response can be read back from what the writer emits.
  The writer copies header values as they are: a value that holds a line break comes
  back as two headers, so the header set read back differs from the one written.
\<close>

theorem injected_header_does_not_round_trip:
  "(case parse_response (sent (snd (Write scenarioEnv injectedResponse (newConn [] EOF)))) of
      None \<Rightarrow> None
    | Some (code, hs) \<Rightarrow> fmlookup hs ''Connection'') = Some ''close'' \<and>
   fmlookup (Response.Headers injectedResponse) ''Connection'' = None"
  by code_simp

text \<open>
  C8, amended. On a connection that accepts the write, the writer emits for every
  response the status line and then one line for each header, with the keys in ascending
  lexicographic order and each key once, and then the empty line. When the response is
  safe for the wire, reading the emitted bytes back yields its status code and exactly
  its header map.
\<close>

theorem response_round_trip:
  assumes "room conn = None"
  shows "\<exists>ks body. sorted ks \<and> distinct ks \<and> set ks = fset (fmdom (Response.Headers res)) \<and>
           sent (snd (Write w res conn)) =
             sent conn @ wire_status_line res @ concat (map (wire_header res) ks) @ CRLF @ body \<and>
           (wire_safe res \<longrightarrow>
              parse_response (wire_status_line res @ concat (map (wire_header res) ks) @ CRLF @ body) =
                Some (StatusCode res, Response.Headers res))"
proof -
  let ?h = "Response.Headers res"
  let ?ks = "sorted_list_of_fset (fmdom ?h)"
  let ?val = "\<lambda>k. the (fmlookup ?h k)"
  let ?sl = "Response.Proto res @ '' '' @ Sprint (StatusCode res) @ '' '' @ statusText (StatusCode res)"
  have ks: "set ?ks = fset (fmdom ?h)" by simp
  from Write_head [OF assms, of w res] obtain body where
    w: "sent (snd (Write w res conn)) =
          sent conn @ wire_status_line res @ concat (map (wire_header res) ?ks) @ CRLF @ body" ..
  let ?rest = "concat (map (wire_header res) ?ks) @ CRLF @ body"
  have rt: "parse_response (wire_status_line res @ ?rest) = Some (StatusCode res, ?h)"
    if safe_res: "wire_safe res"
  proof -
    from safe_res have p: "CR \<notin> set (Response.Proto res)" "CHR '' '' \<notin> set (Response.Proto res)"
      by (simp_all add: wire_safe_def no_line_break_def)
    from safe_res have safe: "\<forall>k \<in> set ?ks. CHR '':'' \<notin> set k \<and> \<not> HasPrefix (?val k) '' '' \<and>
         CR \<notin> set k \<and> CR \<notin> set (?val k)"
      by (simp add: wire_safe_def no_line_break_def)
    have cr: "CR \<notin> set ?sl"
      using p(1) Sprint_no_CR [of "StatusCode res"] statusText_no_CR [of "StatusCode res"]
      by (simp add: CR_def)
    have wl: "wire_status_line res @ ?rest = ?sl @ CRLF @ ?rest"
      by (simp add: wire_status_line_def)
    have tl: "take_line (wire_status_line res @ ?rest) = Some (?sl, ?rest)"
      by (simp only: wl take_line_CRLF [OF cr])
    have st: "parse_status_line ?sl = Some (Response.Proto res, StatusCode res, statusText (StatusCode res))"
      by (rule parse_status_line_wire [OF p(2)])
    have wh: "wire_header res = (\<lambda>k. k @ '': '' @ ?val k @ CRLF)"
      by (rule ext) (simp add: wire_header_def)
    have hb: "parse_header_block ?rest fmempty = Some (fold (\<lambda>k. fmupd k (?val k)) ?ks fmempty)"
      unfolding wh by (rule parse_header_block_fold [OF safe])
    show ?thesis
      by (simp only: parse_response_def tl st hb option.case prod.case fold_fmupd_dom [OF ks])
  qed
  from ks sorted_keys [of "fmdom ?h"] w rt show ?thesis by blast
qed

theorem response_round_trip_witness:
  "parse_response
     (sent (snd (Write scenarioEnv (handleBadRequest scenarioEnv None zeroResponse) (newConn [] EOF)))) =
   Some (400, Response.Headers (handleBadRequest scenarioEnv None zeroResponse))"
proof -
  let ?res = "handleBadRequest scenarioEnv None zeroResponse"
  let ?c = "newConn [] EOF"
  have a: "room ?c = None" by (simp add: newConn_def)
  have b: "wire_safe ?res" by code_simp
  have s: "sent ?c = []" by (simp add: newConn_def)
  have c: "StatusCode ?res = 400" by (rule handleBadRequest_fields)
  from response_round_trip [OF a, where w = scenarioEnv and res = ?res] b obtain ks body where
    w: "sent (snd (Write scenarioEnv ?res ?c)) =
          sent ?c @ wire_status_line ?res @ concat (map (wire_header ?res) ks) @ CRLF @ body"
    and p: "parse_response (wire_status_line ?res @ concat (map (wire_header ?res) ks) @ CRLF @ body) =
              Some (StatusCode ?res, Response.Headers ?res)"
    by blast
  have "sent (snd (Write scenarioEnv ?res ?c)) =
          wire_status_line ?res @ concat (map (wire_header ?res) ks) @ CRLF @ body"
    by (simp only: w s append_Nil)
  with p c show ?thesis by (simp only:)
qed

end
